(* ===== verification/GoStrings.thy ===== *)
theory GoStrings
  imports Prelude
begin

text \<open>
  The functions of Go's \<^verbatim>\<open>strings\<close>, \<^verbatim>\<open>strconv\<close> and \<^verbatim>\<open>fmt\<close> packages that the
  server, the client and the in-memory store call, on byte strings, and the small string helpers
  of \<^verbatim>\<open>pop3server/conn.go\<close>: \<^verbatim>\<open>splitCommand\<close>, \<^verbatim>\<open>sanitizeResponse\<close>,
  \<^verbatim>\<open>parseInt\<close>, \<^verbatim>\<open>containsCTL\<close>, \<^verbatim>\<open>splitNull\<close>.

  White space is Go's \<^verbatim>\<open>unicode.IsSpace\<close>, complete: a space rune is one of the UTF-8
  encodings in \<open>space_runes\<close>. UTF-8 lead bytes never occur inside another rune, so decoding
  forwards (\<^verbatim>\<open>Fields\<close>, the left trim) or backwards (the right trim) meets a space rune
  exactly where one of these encodings starts or ends. Case mapping is complete on ASCII; beyond it
  Go consults its Unicode tables, which are data of the Go distribution and a parameter here
  (\<open>unicode\<close>): every theorem holds for every choice of it.
\<close>

section \<open>White space\<close>

definition space_runes :: "bytes list" where
  "space_runes =
     [[CHR 0x09], [CHR 0x0A], [CHR 0x0B], [CHR 0x0C], [CHR 0x0D], [CHR 0x20],
      [CHR 0xC2, CHR 0x85], [CHR 0xC2, CHR 0xA0], [CHR 0xE1, CHR 0x9A, CHR 0x80]]
     @ map (\<lambda>k. [CHR 0xE2, CHR 0x80, char_of (k :: nat)])
         [0x80, 0x81, 0x82, 0x83, 0x84, 0x85, 0x86, 0x87, 0x88, 0x89, 0x8A, 0xA8, 0xA9, 0xAF]
     @ [[CHR 0xE2, CHR 0x81, CHR 0x9F], [CHR 0xE3, CHR 0x80, CHR 0x80]]"

text \<open>The number of bytes of the space rune a string starts (ends) with, 0 if there is none.\<close>

definition space_len :: "bytes \<Rightarrow> nat" where
  "space_len s = (case find (\<lambda>r. prefix r s) space_runes of None \<Rightarrow> 0 | Some r \<Rightarrow> length r)"

definition space_len_end :: "bytes \<Rightarrow> nat" where
  "space_len_end s = (case find (\<lambda>r. suffix r s) space_runes of None \<Rightarrow> 0 | Some r \<Rightarrow> length r)"

lemma space_runes_nonempty: "r \<in> set space_runes \<Longrightarrow> r \<noteq> []"
  by (auto simp: space_runes_def)

lemma space_len_pos: "space_len s \<noteq> 0 \<Longrightarrow> s \<noteq> [] \<and> 0 < space_len s"
proof -
  assume nz: "space_len s \<noteq> 0"
  then obtain r where "find (\<lambda>r. prefix r s) space_runes = Some r"
    by (auto simp: space_len_def split: option.splits)
  then have "r \<in> set space_runes" and "prefix r s"
    by (auto dest: find_SomeD)
  with nz show ?thesis using space_runes_nonempty by (auto simp: prefix_def)
qed

lemma space_len_end_pos: "space_len_end s \<noteq> 0 \<Longrightarrow> s \<noteq> [] \<and> 0 < space_len_end s"
proof -
  assume nz: "space_len_end s \<noteq> 0"
  then obtain r where "find (\<lambda>r. suffix r s) space_runes = Some r"
    by (auto simp: space_len_end_def split: option.splits)
  then have "r \<in> set space_runes" and "suffix r s"
    by (auto dest: find_SomeD)
  with nz show ?thesis using space_runes_nonempty by (auto simp: suffix_def)
qed

function TrimLeft :: "bytes \<Rightarrow> bytes" where
  "TrimLeft s = (if space_len s = 0 then s else TrimLeft (drop (space_len s) s))"
  by pat_completeness auto
termination
proof (relation "measure length")
  fix s :: bytes
  assume "space_len s \<noteq> 0"
  then have "s \<noteq> []" and "0 < space_len s"
    using space_len_pos by blast+
  then show "(drop (space_len s) s, s) \<in> measure length"
    by (simp add: length_drop)
qed simp

function TrimRight :: "bytes \<Rightarrow> bytes" where
  "TrimRight s =
     (if space_len_end s = 0 then s else TrimRight (take (length s - space_len_end s) s))"
  by pat_completeness auto
termination
proof (relation "measure length")
  fix s :: bytes
  assume "space_len_end s \<noteq> 0"
  then have "s \<noteq> []" and "0 < space_len_end s"
    using space_len_end_pos by blast+
  then show "(take (length s - space_len_end s) s, s) \<in> measure length"
    by (cases s) auto
qed simp

declare TrimLeft.simps [simp del] TrimRight.simps [simp del]

definition TrimSpace :: "bytes \<Rightarrow> bytes" where
  "TrimSpace s = TrimRight (TrimLeft s)"

text \<open>\<^verbatim>\<open>strings.Fields\<close>: \<open>cur\<close> is the field being collected.\<close>

function fields_from :: "bytes \<Rightarrow> bytes \<Rightarrow> bytes list" where
  "fields_from cur s =
     (case s of
        [] \<Rightarrow> (if cur = [] then [] else [cur])
      | b # r \<Rightarrow>
          (if space_len s = 0 then fields_from (cur @ [b]) r
           else if cur = [] then fields_from [] (drop (space_len s) s)
           else cur # fields_from [] (drop (space_len s) s)))"
  by pat_completeness auto
termination
  by (relation "measure (\<lambda>(cur, s). length s)") auto

declare fields_from.simps [simp del]

definition Fields :: "bytes \<Rightarrow> bytes list" where
  "Fields s = fields_from [] s"

section \<open>Case mapping\<close>

text \<open>
  The Unicode part of \<^verbatim>\<open>strings.ToUpper\<close> and \<^verbatim>\<open>strings.EqualFold\<close>: what they
  answer when a byte outside ASCII is involved.
\<close>

record unicode =
  uni_ToUpper :: "bytes \<Rightarrow> bytes"
  uni_EqualFold :: "bytes \<Rightarrow> bytes \<Rightarrow> bool"

definition upper_char :: "char \<Rightarrow> char" where
  "upper_char c = (if 97 \<le> byte c \<and> byte c \<le> 122 then char_of (byte c - 32) else c)"

definition ToUpper :: "unicode \<Rightarrow> bytes \<Rightarrow> bytes" where
  "ToUpper u s = (if list_all is_ascii s then map upper_char s else uni_ToUpper u s)"

definition EqualFold :: "unicode \<Rightarrow> bytes \<Rightarrow> bytes \<Rightarrow> bool" where
  "EqualFold u s t =
     (if list_all is_ascii s \<and> list_all is_ascii t then map upper_char s = map upper_char t
      else uni_EqualFold u s t)"

section \<open>Joining, prefixes\<close>

fun Join :: "bytes list \<Rightarrow> bytes \<Rightarrow> bytes" where
  "Join [] sep = []"
| "Join [p] sep = p"
| "Join (p # ps) sep = p @ sep @ Join ps sep"

definition HasPrefix :: "bytes \<Rightarrow> bytes \<Rightarrow> bool" where
  "HasPrefix s p = (take (length p) s = p)"

definition TrimPrefix :: "bytes \<Rightarrow> bytes \<Rightarrow> bytes" where
  "TrimPrefix s p = (if HasPrefix s p then drop (length p) s else s)"

section \<open>Decimal numbers\<close>

text \<open>\<^verbatim>\<open>%d\<close> of \<^verbatim>\<open>fmt\<close>.\<close>

definition digit_char :: "nat \<Rightarrow> char" where
  "digit_char d = char_of (48 + d)"

fun dec :: "nat \<Rightarrow> bytes" where
  "dec n = (if n < 10 then [digit_char n] else dec (n div 10) @ [digit_char (n mod 10)])"

declare dec.simps [simp del]

definition fmt_d :: "int \<Rightarrow> bytes" where
  "fmt_d i = (if i < 0 then CHR ''-'' # dec (nat (- i)) else dec (nat i))"

definition is_digit :: "char \<Rightarrow> bool" where
  "is_digit c = (48 \<le> byte c \<and> byte c \<le> 57)"

definition digits_value :: "bytes \<Rightarrow> int" where
  "digits_value s = foldl (\<lambda>n c. n * 10 + int (byte c - 48)) 0 s"

text \<open>
  \<^verbatim>\<open>strconv.ParseInt(s, 10, 64)\<close>, and \<^verbatim>\<open>strconv.Atoi\<close>, which is the same on a 64-bit
  platform: an optional sign, then digits only, and the value must fit. Every failure is an error
  for the callers, which do not tell the kinds apart.
\<close>

definition ParseInt :: "bytes \<Rightarrow> int option" where
  "ParseInt s =
     (let (neg, ds) =
        (case s of
           [] \<Rightarrow> (False, [])
         | c # r \<Rightarrow> (if c = CHR ''+'' then (False, r) else if c = CHR ''-'' then (True, r)
                    else (False, s)))
      in if ds = [] \<or> \<not> list_all is_digit ds then None
         else let n = digits_value ds
              in if neg then (if n > 2 ^ 63 then None else Some (- n))
                 else (if n \<ge> 2 ^ 63 then None else Some n))"

section \<open>The helpers of conn.go\<close>

text \<open>\<^verbatim>\<open>splitCommand\<close>: the verb is the text before the first space or tab.\<close>

definition splitCommand :: "bytes \<Rightarrow> bytes \<times> bytes" where
  "splitCommand line =
     (let stop = (\<lambda>c. c \<noteq> CHR '' '' \<and> c \<noteq> TAB)
      in case dropWhile stop line of
           [] \<Rightarrow> (line, [])
         | _ # arg \<Rightarrow> (takeWhile stop line, arg))"

definition sanitizeResponse :: "bytes \<Rightarrow> bytes" where
  "sanitizeResponse s =
     (if CR \<notin> set s \<and> LF \<notin> set s then s else filter (\<lambda>c. c \<noteq> CR \<and> c \<noteq> LF) s)"

text \<open>
  \<^verbatim>\<open>parseInt\<close> ranges over runes; a byte outside ASCII starts a rune above \<open>'9'\<close>, so it
  ends the loop with the same error as any other byte that is not a digit.
\<close>

fun parseInt_loop :: "int \<Rightarrow> bytes \<Rightarrow> bytes + int" where
  "parseInt_loop n [] = Inr n"
| "parseInt_loop n (ch # s) =
     (if byte ch < 48 \<or> byte ch > 57 then Inl ''not a number''
      else let n' = n * 10 + int (byte ch - 48)
           in if n' > 2 ^ 31 - 1 then Inl ''number too large'' else parseInt_loop n' s)"

definition parseInt :: "bytes \<Rightarrow> bytes + int" where
  "parseInt s = (if length s = 0 then Inl ''not a number'' else parseInt_loop 0 s)"

fun containsCTL :: "bytes \<Rightarrow> bool" where
  "containsCTL [] = False"
| "containsCTL (b # s) = (byte b < 0x20 \<or> byte b = 0x7F \<or> containsCTL s)"

fun splitNull_from :: "bytes \<Rightarrow> bytes \<Rightarrow> bytes list" where
  "splitNull_from current [] = [current]"
| "splitNull_from current (b # data) =
     (if byte b = 0 then current # splitNull_from [] data
      else splitNull_from (current @ [b]) data)"

definition splitNull :: "bytes \<Rightarrow> bytes list" where
  "splitNull data = splitNull_from [] data"

section \<open>Lemmas\<close>

subsection \<open>Sanitized responses carry no line break\<close>

lemma sanitizeResponse_filter: "sanitizeResponse s = filter (\<lambda>c. c \<noteq> CR \<and> c \<noteq> LF) s"
proof (cases "CR \<notin> set s \<and> LF \<notin> set s")
  case True
  then have "filter (\<lambda>c. c \<noteq> CR \<and> c \<noteq> LF) s = s"
    by (intro filter_True) auto
  with True show ?thesis by (simp add: sanitizeResponse_def)
next
  case False
  then show ?thesis by (auto simp: sanitizeResponse_def)
qed

lemma sanitizeResponse_set [simp]: "CR \<notin> set (sanitizeResponse s)" "LF \<notin> set (sanitizeResponse s)"
  by (auto simp: sanitizeResponse_filter)

lemma sanitizeResponse_clean: "CR \<notin> set s \<Longrightarrow> LF \<notin> set s \<Longrightarrow> sanitizeResponse s = s"
  by (simp add: sanitizeResponse_def)

subsection \<open>Numbers printed and read back\<close>

lemma byte_digit_char: "d < 10 \<Longrightarrow> byte (digit_char d) = 48 + d"
  by (simp add: digit_char_def)

lemma is_digit_digit_char: "d < 10 \<Longrightarrow> is_digit (digit_char d)"
  by (simp add: is_digit_def byte_digit_char)

lemma dec_digits: "list_all is_digit (dec n)"
proof (induction n rule: dec.induct)
  case (1 n)
  then show ?case
    by (subst dec.simps) (auto simp: is_digit_digit_char)
qed

lemma dec_nonempty [simp]: "dec n \<noteq> []"
  by (subst dec.simps) simp

lemma digits_value_snoc: "digits_value (s @ [c]) = digits_value s * 10 + int (byte c - 48)"
  by (simp add: digits_value_def)

lemma digits_value_dec: "digits_value (dec n) = int n"
proof (induction n rule: dec.induct)
  case (1 n)
  show ?case
  proof (cases "n < 10")
    case True
    then show ?thesis
      by (subst dec.simps) (simp add: digits_value_def byte_digit_char)
  next
    case False
    with "1.IH" have "digits_value (dec (n div 10)) = int (n div 10)" by simp
    then have "digits_value (dec n) = int (n div 10) * 10 + int (n mod 10)"
      using False by (subst dec.simps) (simp add: digits_value_snoc byte_digit_char)
    also have "\<dots> = int n"
      by (metis of_nat_add of_nat_mult of_nat_numeral mod_div_mult_eq add.commute)
    finally show ?thesis .
  qed
qed

lemma digits_value_nonneg: "0 \<le> digits_value s"
proof -
  have "0 \<le> n \<Longrightarrow> 0 \<le> foldl (\<lambda>n c. n * 10 + int (byte c - 48)) n s" for n :: int
    by (induction s arbitrary: n) auto
  then show ?thesis by (simp add: digits_value_def)
qed

lemma is_digit_not_sign: "is_digit c \<Longrightarrow> c \<noteq> CHR ''+'' \<and> c \<noteq> CHR ''-''"
  by (auto simp: is_digit_def byte_def)

lemma ParseInt_digits:
  assumes "s \<noteq> []" and "list_all is_digit s" and "digits_value s < 2 ^ 63"
  shows "ParseInt s = Some (digits_value s)"
proof (cases s)
  case Nil
  with assms show ?thesis by simp
next
  case (Cons c r)
  with assms have "is_digit c" by simp
  then have "c \<noteq> CHR ''+''" and "c \<noteq> CHR ''-''" using is_digit_not_sign by auto
  with Cons assms show ?thesis by (simp add: ParseInt_def)
qed

lemma ParseInt_fmt_d:
  assumes "- (2 ^ 63) \<le> i" and "i < 2 ^ 63"
  shows "ParseInt (fmt_d i) = Some i"
proof (cases "i < 0")
  case True
  then show ?thesis
    using assms by (simp add: fmt_d_def ParseInt_def dec_digits digits_value_dec)
next
  case False
  then have "ParseInt (dec (nat i)) = Some (digits_value (dec (nat i)))"
    using assms by (intro ParseInt_digits) (simp_all add: dec_digits digits_value_dec)
  with False show ?thesis by (simp add: fmt_d_def digits_value_dec)
qed

subsection \<open>The server's number parser\<close>

lemma foldl_digits_mono:
  "0 \<le> n \<Longrightarrow> n \<le> foldl (\<lambda>n c. n * 10 + int (byte c - 48)) n s"
proof (induction s arbitrary: n)
  case (Cons c s)
  let ?m = "n * 10 + int (byte c - 48)"
  have "n \<le> ?m" using Cons.prems by simp
  also have "?m \<le> foldl (\<lambda>n c. n * 10 + int (byte c - 48)) ?m s"
    using Cons.prems by (intro Cons.IH) simp
  finally show ?case by simp
qed simp

lemma parseInt_loop_Inr:
  assumes "0 \<le> n" and "n \<le> 2 ^ 31 - 1"
  shows "parseInt_loop n s = Inr m \<longleftrightarrow>
    list_all is_digit s \<and> m = foldl (\<lambda>n c. n * 10 + int (byte c - 48)) n s \<and> m \<le> 2 ^ 31 - 1"
  using assms
proof (induction s arbitrary: n)
  case Nil
  then show ?case by auto
next
  case (Cons c s)
  let ?n = "n * 10 + int (byte c - 48)"
  show ?case
  proof (cases "is_digit c \<and> ?n \<le> 2 ^ 31 - 1")
    case True
    then show ?thesis using Cons by (auto simp: is_digit_def Let_def)
  next
    case False
    have "?n \<le> foldl (\<lambda>n c. n * 10 + int (byte c - 48)) ?n s"
      using Cons.prems by (intro foldl_digits_mono) simp
    with False show ?thesis by (auto simp: is_digit_def Let_def not_le)
  qed
qed

lemma parseInt_Inr_iff:
  "parseInt s = Inr n \<longleftrightarrow>
     s \<noteq> [] \<and> list_all is_digit s \<and> n = digits_value s \<and> n \<le> 2 ^ 31 - 1"
  by (simp add: parseInt_def parseInt_loop_Inr digits_value_def)

subsection \<open>Strings of plain ASCII without white space\<close>

definition ascii_space :: "char \<Rightarrow> bool" where
  "ascii_space c = (c \<in> {CHR 0x09, CHR 0x0A, CHR 0x0B, CHR 0x0C, CHR 0x0D, CHR 0x20})"

lemma ascii_space_bytes: "ascii_space c \<longleftrightarrow> byte c \<in> {9, 10, 11, 12, 13, 32}"
proof -
  have "byte c \<in> {9, 10, 11, 12, 13, 32} \<longleftrightarrow>
      byte c \<in> byte ` {CHR 0x09, CHR 0x0A, CHR 0x0B, CHR 0x0C, CHR 0x0D, CHR 0x20}"
    by (simp add: byte_def)
  then show ?thesis by (auto simp: ascii_space_def)
qed

lemma space_runes_ascii:
  "r \<in> set space_runes \<Longrightarrow> is_ascii (hd r) \<Longrightarrow> length r = 1 \<and> ascii_space (hd r)"
  by (auto simp: space_runes_def is_ascii_def byte_def ascii_space_def)

lemma space_runes_ascii_last:
  "r \<in> set space_runes \<Longrightarrow> is_ascii (last r) \<Longrightarrow> length r = 1 \<and> ascii_space (last r)"
  by (auto simp: space_runes_def is_ascii_def byte_def ascii_space_def)

lemma ascii_space_rune: "ascii_space c \<Longrightarrow> [c] \<in> set space_runes"
  by (auto simp: space_runes_def ascii_space_def)

lemma space_len_ascii:
  assumes "is_ascii c"
  shows "space_len (c # s) = (if ascii_space c then 1 else 0)"
proof (cases "find (\<lambda>r. prefix r (c # s)) space_runes")
  case None
  then have "\<not> ascii_space c" using ascii_space_rune [of c] by (fastforce simp: find_None_iff)
  with None show ?thesis by (simp add: space_len_def)
next
  case (Some r)
  then have r: "r \<in> set space_runes" "prefix r (c # s)" by (auto dest: find_SomeD)
  then have "hd r = c" using space_runes_nonempty [OF r(1)] by (auto simp: prefix_Cons)
  with r assms have "length r = 1" "ascii_space c" using space_runes_ascii by auto
  with Some show ?thesis by (simp add: space_len_def)
qed

lemma space_len_end_ascii:
  assumes "is_ascii c"
  shows "space_len_end (s @ [c]) = (if ascii_space c then 1 else 0)"
proof (cases "find (\<lambda>r. suffix r (s @ [c])) space_runes")
  case None
  then have "\<not> ascii_space c" using ascii_space_rune [of c] by (fastforce simp: find_None_iff)
  with None show ?thesis by (simp add: space_len_end_def)
next
  case (Some r)
  then have r: "r \<in> set space_runes" "suffix r (s @ [c])" by (auto dest: find_SomeD)
  then have "last r = c" using space_runes_nonempty [OF r(1)] by (cases r rule: rev_cases) auto
  with r assms have "length r = 1" "ascii_space c" using space_runes_ascii_last by auto
  with Some show ?thesis by (simp add: space_len_end_def)
qed

lemma space_len_Nil [simp]: "space_len [] = 0"
  by (simp add: space_len_def space_runes_def)

text \<open>Words: no white space, ASCII only. They survive trimming and splitting.\<close>

definition plain_char :: "char \<Rightarrow> bool" where
  "plain_char c = (is_ascii c \<and> \<not> ascii_space c)"

definition plain_word :: "bytes \<Rightarrow> bool" where
  "plain_word w = (w \<noteq> [] \<and> list_all plain_char w)"

lemma space_len_plain: "plain_char c \<Longrightarrow> space_len (c # s) = 0"
  by (simp add: plain_char_def space_len_ascii)

lemma space_len_blank: "c = CHR '' '' \<or> c = TAB \<Longrightarrow> space_len (c # s) = 1"
  by (auto simp: space_len_ascii is_ascii_def byte_def ascii_space_def)

lemma TrimLeft_plain: "plain_char c \<Longrightarrow> TrimLeft (c # s) = c # s"
  by (subst TrimLeft.simps) (simp add: space_len_plain)

lemma TrimRight_plain: "plain_char c \<Longrightarrow> TrimRight (s @ [c]) = s @ [c]"
  by (subst TrimRight.simps) (simp add: plain_char_def space_len_end_ascii)

lemma TrimSpace_plain:
  assumes "s \<noteq> []" and "plain_char (hd s)" and "plain_char (last s)"
  shows "TrimSpace s = s"
proof -
  have "TrimLeft s = s" using assms TrimLeft_plain by (cases s) auto
  moreover have "TrimRight s = s" using assms TrimRight_plain by (cases s rule: rev_cases) auto
  ultimately show ?thesis by (simp add: TrimSpace_def)
qed

lemma fields_from_plain: "list_all plain_char w \<Longrightarrow> fields_from cur (w @ s) = fields_from (cur @ w) s"
proof (induction w arbitrary: cur)
  case (Cons c w)
  then show ?case by (subst fields_from.simps) (simp add: space_len_plain)
qed simp

lemma fields_from_blank:
  "c = CHR '' '' \<or> c = TAB \<Longrightarrow>
     fields_from cur (c # s) = (if cur = [] then [] else [cur]) @ fields_from [] s"
  by (subst fields_from.simps) (auto simp: space_len_blank)

lemma fields_from_Nil [simp]: "fields_from cur [] = (if cur = [] then [] else [cur])"
  by (subst fields_from.simps) simp

lemma Fields_Nil [simp]: "Fields [] = []"
  by (simp add: Fields_def)

lemma Fields_word: "plain_word w \<Longrightarrow> Fields w = [w]"
  using fields_from_plain [of w "[]" "[]"] by (simp add: Fields_def plain_word_def)

lemma Fields_word_blank:
  "plain_word w \<Longrightarrow> c = CHR '' '' \<or> c = TAB \<Longrightarrow> Fields (w @ c # s) = w # Fields s"
  using fields_from_plain [of w "[]" "c # s"]
  by (simp add: Fields_def plain_word_def fields_from_blank)

lemma Fields_Join: "list_all plain_word ws \<Longrightarrow> Fields (Join ws '' '') = ws"
proof (induction ws "'' ''" rule: Join.induct)
  case (3 p q ps)
  then show ?case using Fields_word_blank [of p "CHR '' ''"] by simp
qed (simp_all add: Fields_word)

lemma plain_digit: "is_digit c \<Longrightarrow> plain_char c"
  by (auto simp: is_digit_def plain_char_def is_ascii_def ascii_space_def byte_def)

lemma plain_word_dec: "plain_word (dec n)"
  using dec_digits [of n] plain_digit by (auto simp: plain_word_def list_all_iff)

lemma plain_word_fmt_d: "plain_word (fmt_d i)"
  using plain_word_dec
  by (auto simp: fmt_d_def plain_word_def plain_char_def is_ascii_def ascii_space_def byte_def)

lemma containsCTL_iff: "containsCTL s \<longleftrightarrow> (\<exists>b \<in> set s. byte b < 0x20 \<or> byte b = 0x7F)"
  by (induction s) auto

lemma splitNull_from_split: "NUL \<notin> set s \<Longrightarrow>
    splitNull_from cur (s @ NUL # t) = (cur @ s) # splitNull_from [] t"
  by (induction s arbitrary: cur) auto

lemma splitNull_from_last: "NUL \<notin> set s \<Longrightarrow> splitNull_from cur s = [cur @ s]"
  by (induction s arbitrary: cur) auto

end
