(* ===== verification/GoErrors.thy ===== *)
theory GoErrors
  imports GoStrings
begin

text \<open>
  \<^verbatim>\<open>pop3server/errors.go\<close> and the part of Go's \<^verbatim>\<open>errors\<close> package the server inspects
  errors with. An error is a tree: a leaf is a \<^verbatim>\<open>*pop3server.Error\<close>, one of the sentinels,
  or an error the library knows nothing of but its text; \<open>ErrWrap\<close> is what
  \<^verbatim>\<open>fmt.Errorf\<close> with \<^verbatim>\<open>%w\<close> and \<^verbatim>\<open>errors.Join\<close> build. \<open>errors_As\<close> and
  \<open>errors_Is\<close> search it depth first, as Go does.
\<close>

record Error =
  Error_Code :: bytes
  Error_Message :: bytes
  Error_Close :: bool

datatype err =
    ErrPop3 Error                  \<comment> \<open>\<^verbatim>\<open>*pop3server.Error\<close>\<close>
  | ErrCloseConnection
  | ErrSilentReject
  | ErrLineTooLong
  | ErrTimeout                     \<comment> \<open>a \<^verbatim>\<open>net.Error\<close> whose \<^verbatim>\<open>Timeout()\<close> is true\<close>
  | ErrEOF
  | ErrPlain bytes                 \<comment> \<open>any other error, with its text\<close>
  | ErrWrap bytes "err list"       \<comment> \<open>an error with its own text that wraps others\<close>

definition wireMessage :: "unicode \<Rightarrow> Error \<Rightarrow> bytes" where
  "wireMessage u e =
     (let msg = (if Error_Message e = [] then ''internal error'' else Error_Message e)
      in if Error_Code e = [] then msg
         else ''['' @ ToUpper u (Error_Code e) @ ''] '' @ msg)"

fun errors_As :: "err \<Rightarrow> Error option" where
  "errors_As (ErrPop3 e) = Some e"
| "errors_As (ErrWrap t es) =
     (case filter (\<lambda>r. r \<noteq> None) (map errors_As es) of [] \<Rightarrow> None | r # _ \<Rightarrow> r)"
| "errors_As _ = None"

fun errors_Is :: "err \<Rightarrow> err \<Rightarrow> bool" where
  "errors_Is (ErrWrap t es) target =
     (ErrWrap t es = target \<or> list_ex (\<lambda>e. errors_Is e target) es)"
| "errors_Is e target = (e = target)"

fun err_text :: "unicode \<Rightarrow> err \<Rightarrow> bytes" where
  "err_text u (ErrPop3 e) = wireMessage u e"
| "err_text u ErrCloseConnection = ''pop3server: close connection''"
| "err_text u ErrSilentReject = ''pop3server: silently reject connection''"
| "err_text u ErrLineTooLong = ''line too long''"
| "err_text u ErrTimeout = ''i/o timeout''"
| "err_text u ErrEOF = ''EOF''"
| "err_text u (ErrPlain t) = t"
| "err_text u (ErrWrap t es) = t"

fun isTimeout :: "err \<Rightarrow> bool" where
  "isTimeout ErrTimeout = True"
| "isTimeout (ErrWrap t es) = list_ex isTimeout es"
| "isTimeout _ = False"

end
