(* ===== verification/Bufio.thy ===== *)
theory Bufio
  imports GoErrors
begin

text \<open>
  The network connection and the buffered reader and writer on it, shared by the server and the
  client.

  A \<open>Net\<close> is one \<^verbatim>\<open>net.Conn\<close>, seen from the program: the clock, the deadlines, and
  what the peer will do. The peer is a list of timed events: \<open>(dt, e)\<close> means that \<open>e\<close>
  happens \<open>dt\<close> nanoseconds after the program starts to wait for it. Timeouts are not events:
  they follow from the clock and the deadline the program sets. After the list the peer is silent.
  A peer that reads slowly holds up the next writes for the times of \<open>wslow\<close>, one after the other.
  Writes are accepted until \<open>wbudget\<close> bytes have gone out (\<open>None\<close>: always), which is how
  a peer that stops reading shows. A write that finds no room waits: until the write deadline, or
  until the connection breaks, which it does after the time and with the error text of
  \<open>wbreak\<close>. \<open>tls_peer\<close> says how a TLS handshake will end: \<open>None\<close> if it fails, or the
  time it takes and what the peer sends through the TLS connection afterwards.

  \<open>ReadSlice\<close>, \<open>ReadLine\<close> and \<open>bufw_Write\<close>, \<open>Flush\<close> are Go's \<^verbatim>\<open>bufio\<close> with its
  default buffers of 4096 bytes, with the treatment of a carriage return at the end of a full buffer
  and of an unterminated last line.
\<close>

section \<open>The connection\<close>

datatype net_event = NData bytes | NEOF | NErr bytes

record Net =
  now :: int
  rdeadline :: "int option"
  net :: "(nat \<times> net_event) list"
  tls_peer :: "(nat \<times> (nat \<times> net_event) list) option"
  sent :: bytes
  wbudget :: "nat option"
  wdeadline :: "int option"
  wbreak :: "nat \<times> bytes"
  wslow :: "nat list"

datatype read_result = RData bytes | RErr err | RBlock

text \<open>
  One \<^verbatim>\<open>Read\<close> into a slice of \<open>k\<close> bytes. A deadline that passes first ends it with a
  timeout; without a deadline a silent peer blocks it for ever. An end of file or a connection
  error stays for the next read.
\<close>

definition conn_Read :: "nat \<Rightarrow> Net \<Rightarrow> read_result \<times> Net" where
  "conn_Read k n =
     (case net n of
        [] \<Rightarrow>
          (case rdeadline n of
             None \<Rightarrow> (RBlock, n)
           | Some d \<Rightarrow> (RErr ErrTimeout, n\<lparr>now := max (now n) d\<rparr>))
      | (dt, ev) # evs \<Rightarrow>
          (if (case rdeadline n of None \<Rightarrow> False | Some d \<Rightarrow> d < now n + int dt) then
             (let t = max (now n) (the (rdeadline n))
              in (RErr ErrTimeout, n\<lparr>now := t, net := (dt - nat (t - now n), ev) # evs\<rparr>))
           else
             (let n' = n\<lparr>now := now n + int dt\<rparr>
              in case ev of
                   NData bs \<Rightarrow>
                     (RData (take k bs),
                      n'\<lparr>net := (if length bs \<le> k then evs else (0, NData (drop k bs)) # evs)\<rparr>)
                 | NEOF \<Rightarrow> (RErr ErrEOF, n'\<lparr>net := (0, NEOF) # evs\<rparr>)
                 | NErr t \<Rightarrow> (RErr (ErrPlain t), n'\<lparr>net := (0, NErr t) # evs\<rparr>))))"

text \<open>
  One \<^verbatim>\<open>Write\<close>. A deadline that has passed fails it at once. Otherwise it waits while the peer
  holds it up, fails if the deadline comes first, and then the bytes that there is room for go out; if
  some are left the write waits and fails.
\<close>

definition passed :: "int option \<Rightarrow> int \<Rightarrow> bool" where
  "passed deadline t = (case deadline of None \<Rightarrow> False | Some d \<Rightarrow> d < t)"

definition conn_Send :: "bytes \<Rightarrow> Net \<Rightarrow> err option \<times> Net" where
  "conn_Send p n =
     (case wbudget n of
        None \<Rightarrow> (None, n\<lparr>sent := sent n @ p\<rparr>)
      | Some k \<Rightarrow>
          (if length p \<le> k then (None, n\<lparr>sent := sent n @ p, wbudget := Some (k - length p)\<rparr>)
           else
             (let n' = n\<lparr>sent := sent n @ take k p, wbudget := Some 0\<rparr>;
                  t = now n + int (fst (wbreak n))
              in if passed (wdeadline n) t
                 then (Some ErrTimeout, n'\<lparr>now := the (wdeadline n)\<rparr>)
                 else (Some (ErrPlain (snd (wbreak n))), n'\<lparr>now := t\<rparr>))))"

definition conn_Write :: "bytes \<Rightarrow> Net \<Rightarrow> err option \<times> Net" where
  "conn_Write p n =
     (if passed (wdeadline n) (now n) then (Some ErrTimeout, n)
      else case wslow n of
             [] \<Rightarrow> conn_Send p n
           | dt # ds \<Rightarrow>
               (let t = now n + int dt; n' = n\<lparr>wslow := ds\<rparr>
                in if passed (wdeadline n) t then (Some ErrTimeout, n'\<lparr>now := the (wdeadline n)\<rparr>)
                   else conn_Send p (n'\<lparr>now := t\<rparr>)))"

text \<open>
  \<^verbatim>\<open>writeDeadlineConn\<close>: with a positive timeout every write gets a deadline of its own. A
  timeout of 0 stands for the connection without the wrapper.
\<close>

definition writeDeadlineConn_Write :: "int \<Rightarrow> bytes \<Rightarrow> Net \<Rightarrow> err option \<times> Net" where
  "writeDeadlineConn_Write timeout p n =
     conn_Write p (if timeout > 0 then n\<lparr>wdeadline := Some (now n + timeout)\<rparr> else n)"

text \<open>
  \<^verbatim>\<open>Close\<close> of a connection: reads and writes fail at once from then on, and a deadline no longer
  matters. (One that is set afterwards and has passed gives a timeout for the error here.)
\<close>

definition conn_Close :: "Net \<Rightarrow> Net" where
  "conn_Close n =
     (let closed = ''use of closed network connection''
      in n\<lparr>rdeadline := None, net := [(0, NErr closed)], tls_peer := None, wbudget := Some 0, wdeadline := None,
           wbreak := (0, closed), wslow := []\<rparr>)"

text \<open>How much the peer has still to say: what every read uses up.\<close>

fun ev_size :: "nat \<times> net_event \<Rightarrow> nat" where
  "ev_size (dt, NData bs) = Suc (length bs)"
| "ev_size (dt, _) = 1"

definition net_size :: "Net \<Rightarrow> nat" where
  "net_size n = sum_list (map ev_size (net n))"

lemma conn_Read_size:
  assumes "conn_Read k n = (RData bs, n')" and "0 < k"
  shows "net_size n' + length bs \<le> net_size n" and "net_size n' < net_size n"
proof -
  obtain dt ev evs where ne: "net n = (dt, ev) # evs"
    using assms by (cases "net n") (auto simp: conn_Read_def split: option.splits)
  obtain ds where ev: "ev = NData ds"
    using assms ne by (cases ev) (auto simp: conn_Read_def Let_def split: if_splits)
  have n': "bs = take k ds"
    "net n' = (if length ds \<le> k then evs else (0, NData (drop k ds)) # evs)"
    using assms ne ev by (auto simp: conn_Read_def Let_def split: if_splits)
  show "net_size n' + length bs \<le> net_size n" and "net_size n' < net_size n"
    using n' ne ev \<open>0 < k\<close> by (auto simp: net_size_def)
qed

lemma conn_Read_err_size: "conn_Read k n = (RErr e, n') \<Longrightarrow> net_size n' \<le> net_size n"
  by (auto simp: conn_Read_def net_size_def Let_def
      split: list.splits option.splits if_splits net_event.splits prod.splits)
    (metis ev_size.simps le_refl net_event.exhaust)+

lemma conn_Read_block: "conn_Read k n = (RBlock, n') \<Longrightarrow> n' = n"
  by (auto simp: conn_Read_def Let_def
      split: list.splits option.splits if_splits net_event.splits prod.splits)

section \<open>The buffered reader\<close>

definition bufsize :: nat where
  "bufsize = 4096"

lemma bufsize_pos [simp]: "0 < bufsize"
  by (simp add: bufsize_def)

datatype slice_result =
    SLine bytes          \<comment> \<open>up to and with the line feed\<close>
  | SFull bytes          \<comment> \<open>\<^verbatim>\<open>ErrBufferFull\<close>: a full buffer without one\<close>
  | SErr bytes err       \<comment> \<open>what was buffered when the read failed\<close>
  | SBlock

text \<open>\<^verbatim>\<open>ReadSlice('\n')\<close>: the result, the bytes left in the buffer, the connection.\<close>

function ReadSlice :: "bytes \<Rightarrow> Net \<Rightarrow> slice_result \<times> bytes \<times> Net" where
  "ReadSlice buf n =
     (if LF \<in> set buf then
        (SLine (takeWhile (\<lambda>c. c \<noteq> LF) buf @ [LF]), tl (dropWhile (\<lambda>c. c \<noteq> LF) buf), n)
      else if bufsize \<le> length buf then (SFull buf, [], n)
      else case conn_Read (bufsize - length buf) n of
             (RData bs, n') \<Rightarrow> ReadSlice (buf @ bs) n'
           | (RErr e, n') \<Rightarrow> (SErr buf e, [], n')
           | (RBlock, n') \<Rightarrow> (SBlock, buf, n'))"
  by pat_completeness auto
termination
  by (relation "measure (\<lambda>(buf, n). net_size n)") (auto intro!: conn_Read_size(2) [OF sym])

declare ReadSlice.simps [simp del]

datatype line_result = LLine bytes bool | LErr err | LBlock

definition ReadLine :: "bytes \<Rightarrow> Net \<Rightarrow> line_result \<times> bytes \<times> Net" where
  "ReadLine buf n =
     (case ReadSlice buf n of
        (SLine line, rest, n') \<Rightarrow>
          (let l = butlast line
           in (LLine (if l \<noteq> [] \<and> last l = CR then butlast l else l) False, rest, n'))
      | (SFull line, rest, n') \<Rightarrow>
          (if line \<noteq> [] \<and> last line = CR then (LLine (butlast line) True, CR # rest, n')
           else (LLine line True, rest, n'))
      | (SErr line e, rest, n') \<Rightarrow>
          (if line = [] then (LErr e, rest, n') else (LLine line False, rest, n'))
      | (SBlock, rest, n') \<Rightarrow> (LBlock, rest, n'))"

lemma ReadSlice_line: "LF \<notin> set b \<Longrightarrow> ReadSlice (b @ LF # c) n = (SLine (b @ [LF]), c, n)"
  by (subst ReadSlice.simps) simp

text \<open>The buffer never grows beyond its size.\<close>

lemma conn_Read_length: "conn_Read k n = (RData bs, n') \<Longrightarrow> length bs \<le> k"
  by (auto simp: conn_Read_def Let_def split: list.splits option.splits if_splits net_event.splits prod.splits)

lemma ReadSlice_buffer:
  "ReadSlice buf n = (r, buf', n') \<Longrightarrow> length buf \<le> bufsize \<Longrightarrow>
     length buf' \<le> bufsize \<and> (\<forall>l. r = SFull l \<longrightarrow> buf' = [])"
proof (induction buf n rule: ReadSlice.induct)
  case (1 buf n)
  obtain q m where cr: "conn_Read (bufsize - length buf) n = (q, m)" by fastforce
  show ?case
  proof (cases "LF \<in> set buf \<or> bufsize \<le> length buf")
    case True
    then show ?thesis
      using "1.prems" length_dropWhile_le [of "\<lambda>c. c \<noteq> LF" buf]
      by (auto simp: ReadSlice.simps [of buf n] split: if_splits)
  next
    case False
    then show ?thesis
      using "1.prems" "1.IH" [OF _ _ cr [symmetric]] cr conn_Read_length [of "bufsize - length buf" n _ m]
      by (cases q) (auto simp: ReadSlice.simps [of buf n])
  qed
qed

lemma ReadLine_buffer:
  assumes "ReadLine buf n = (r, buf', n')" "length buf \<le> bufsize"
  shows "length buf' \<le> bufsize"
proof -
  obtain q b m where rs: "ReadSlice buf n = (q, b, m)" by (metis prod_cases3)
  show ?thesis
    using assms rs ReadSlice_buffer [OF rs assms(2)]
    by (cases q) (auto simp: ReadLine_def Let_def bufsize_def split: if_splits)
qed

text \<open>Every line returned uses up bytes.\<close>

lemma ReadSlice_size:
  "ReadSlice buf n = (r, buf', n') \<Longrightarrow>
     length buf' + net_size n' +
       (case r of SLine l \<Rightarrow> length l | SFull l \<Rightarrow> length l | SErr l e \<Rightarrow> length l | SBlock \<Rightarrow> 0)
     \<le> length buf + net_size n
     \<and> (case r of SFull l \<Rightarrow> bufsize \<le> length l | _ \<Rightarrow> True)"
proof (induction buf n rule: ReadSlice.induct)
  case (1 buf n)
  obtain q m where cr: "conn_Read (bufsize - length buf) n = (q, m)" by fastforce
  consider (line) "LF \<in> set buf" | (full) "LF \<notin> set buf" "bufsize \<le> length buf"
    | (more) "LF \<notin> set buf" "length buf < bufsize" by linarith
  then show ?case
  proof cases
    case line
    then obtain b c where "buf = b @ LF # c" "LF \<notin> set b" by (meson split_list_first)
    with "1.prems" show ?thesis by (auto simp: ReadSlice_line)
  next
    case full
    with "1.prems" show ?thesis by (auto simp: ReadSlice.simps [of buf n])
  next
    case more
    show ?thesis
    proof (cases q)
      case (RData bs)
      have "net_size m + length bs \<le> net_size n"
        using conn_Read_size(1) cr RData more by simp
      moreover have "ReadSlice (buf @ bs) m = (r, buf', n')"
        using "1.prems" more cr RData by (simp add: ReadSlice.simps [of buf n])
      ultimately show ?thesis
        using "1.IH" [OF more(1) _ cr [symmetric] RData] more(2) by auto
    next
      case (RErr e)
      then have "net_size m \<le> net_size n" using cr conn_Read_err_size by blast
      with "1.prems" more cr RErr show ?thesis by (auto simp: ReadSlice.simps [of buf n])
    next
      case RBlock
      then have "m = n" using cr conn_Read_block by blast
      with "1.prems" more cr RBlock show ?thesis by (auto simp: ReadSlice.simps [of buf n])
    qed
  qed
qed

lemma ReadSlice_SLine: "ReadSlice buf n = (q, b, m) \<Longrightarrow> q = SLine l \<Longrightarrow> l \<noteq> []"
proof (induction buf n rule: ReadSlice.induct)
  case (1 buf n)
  then show ?case
    by (auto simp: ReadSlice.simps [of buf n] split: if_splits read_result.splits prod.splits)
qed

lemma ReadLine_size:
  assumes "ReadLine buf n = (r, buf', n')"
  shows "length buf' + net_size n' \<le> length buf + net_size n"
    and "r = LLine l pre \<Longrightarrow> length buf' + net_size n' < length buf + net_size n"
proof -
  obtain q b m where rs: "ReadSlice buf n = (q, b, m)" by (metis prod_cases3)
  show "length buf' + net_size n' \<le> length buf + net_size n"
    and "r = LLine l pre \<Longrightarrow> length buf' + net_size n' < length buf + net_size n"
    using assms rs ReadSlice_size [OF rs] ReadSlice_SLine [OF rs]
    by (cases q; auto simp: ReadLine_def Let_def bufsize_def split: if_splits
        simp flip: length_greater_0_conv)+
qed

section \<open>The buffered writer\<close>

text \<open>\<open>wtimeout\<close> is the timeout of the \<^verbatim>\<open>writeDeadlineConn\<close> under the writer, 0 without one.\<close>

record bufw =
  wbuf :: bytes
  werr :: "err option"
  wtimeout :: int

definition NewWriter :: "int \<Rightarrow> bufw" where
  "NewWriter timeout = \<lparr>wbuf = [], werr = None, wtimeout = timeout\<rparr>"

text \<open>
  \<^verbatim>\<open>Flush\<close> sends what is buffered. An error is kept: every later write and flush reports it
  and sends nothing.
\<close>

definition Flush :: "bufw \<times> Net \<Rightarrow> err option \<times> bufw \<times> Net" where
  "Flush wn =
     (let (w, n) = wn
      in case werr w of
           Some e \<Rightarrow> (Some e, w, n)
         | None \<Rightarrow>
             (if wbuf w = [] then (None, w, n)
              else case writeDeadlineConn_Write (wtimeout w) (wbuf w) n of
                     (None, n') \<Rightarrow> (None, w\<lparr>wbuf := []\<rparr>, n')
                   | (Some e, n') \<Rightarrow> (Some e, w\<lparr>werr := Some e\<rparr>, n')))"

text \<open>
  \<^verbatim>\<open>Write\<close> and \<^verbatim>\<open>WriteString\<close>: whenever the buffer is full and there is more, a full
  buffer is sent. \<open>write_all w n s\<close> has \<open>s\<close> to place behind an empty buffer.
\<close>

function write_all :: "bufw \<Rightarrow> Net \<Rightarrow> bytes \<Rightarrow> err option \<times> bufw \<times> Net" where
  "write_all w n s =
     (if length s \<le> bufsize then (None, w\<lparr>wbuf := s\<rparr>, n)
      else case writeDeadlineConn_Write (wtimeout w) (take bufsize s) n of
             (None, n') \<Rightarrow> write_all w n' (drop bufsize s)
           | (Some e, n') \<Rightarrow> (Some e, w\<lparr>werr := Some e\<rparr>, n'))"
  by pat_completeness auto
termination
  by (relation "measure (\<lambda>(w, n, s). length s)") (auto simp: bufsize_def)

declare write_all.simps [simp del]

definition bufw_Write :: "bufw \<times> Net \<Rightarrow> bytes \<Rightarrow> err option \<times> bufw \<times> Net" where
  "bufw_Write wn s =
     (let (w, n) = wn
      in case werr w of
           Some e \<Rightarrow> (Some e, w, n)
         | None \<Rightarrow> write_all w n (wbuf w @ s))"

section \<open>What the writer sends\<close>

text \<open>
  The bytes a writer is committed to: those on the wire and, as long as it has not failed, those
  still buffered. A write that succeeds appends its argument to them; one that fails leaves a
  prefix of what they would have become.
\<close>

definition stream :: "bufw \<times> Net \<Rightarrow> bytes" where
  "stream wn = (let (w, n) = wn in sent n @ (if werr w = None then wbuf w else []))"

text \<open>
  A writer whose writes succeed: nothing has failed, the peer takes everything at once, and the deadline
  is not over.
\<close>

definition healthy :: "bufw \<times> Net \<Rightarrow> bool" where
  "healthy wn =
     (let (w, n) = wn
      in werr w = None \<and> wbudget n = None \<and> wslow n = [] \<and> (wtimeout w > 0 \<or> \<not> passed (wdeadline n) (now n)))"

lemma passed_simps [simp]:
  "\<not> passed None t" "passed (Some d) t \<longleftrightarrow> d < t"
  by (simp_all add: passed_def)

text \<open>The time for which the peer will still hold up writes.\<close>

definition lag :: "Net \<Rightarrow> int" where
  "lag n = int (sum_list (wslow n))"

lemma lag_simps [simp]:
  "0 \<le> lag n" "wslow n = [] \<Longrightarrow> lag n = 0" "lag (n\<lparr>now := t\<rparr>) = lag n" "lag (n\<lparr>rdeadline := d\<rparr>) = lag n"
  "lag (n\<lparr>wdeadline := d\<rparr>) = lag n" "lag (n\<lparr>sent := s\<rparr>) = lag n" "lag (n\<lparr>wbudget := b\<rparr>) = lag n"
  by (simp_all add: lag_def)

lemma conn_Send_None:
  "conn_Send p n = (None, n') \<Longrightarrow> sent n' = sent n @ p \<and> now n' = now n"
  by (auto simp: conn_Send_def Let_def split: option.splits if_splits)

lemma conn_Send_Some:
  "conn_Send p n = (Some e, n') \<Longrightarrow> prefix (sent n') (sent n @ p)"
  by (auto simp: conn_Send_def Let_def take_is_prefix split: option.splits if_splits)

lemma conn_Send_frame:
  "conn_Send p n = (r, n') \<Longrightarrow>
     (\<not> passed (wdeadline n) (now n) \<longrightarrow> now n \<le> now n') \<and> rdeadline n' = rdeadline n \<and> net n' = net n
     \<and> tls_peer n' = tls_peer n \<and> wdeadline n' = wdeadline n \<and> wslow n' = wslow n
     \<and> (\<forall>d. wdeadline n = Some d \<longrightarrow> now n' \<le> max (now n) d)"
  by (cases "wdeadline n") (auto simp: conn_Send_def Let_def split: option.splits if_splits)

text \<open>A write is a wait, which a deadline may end, and a sending.\<close>

lemma conn_Write_cases:
  assumes "conn_Write p n = (r, n')"
  obtains (late) "r = Some ErrTimeout" "n' = n" "passed (wdeadline n) (now n)"
  | (stalled) dt ds where "r = Some ErrTimeout" "wslow n = dt # ds" "n' = n\<lparr>wslow := ds, now := the (wdeadline n)\<rparr>"
      "\<not> passed (wdeadline n) (now n)" "passed (wdeadline n) (now n + int dt)"
  | (sends) m where "conn_Send p m = (r, n')" "\<not> passed (wdeadline m) (now m)" "now n \<le> now m" "sent m = sent n"
      "rdeadline m = rdeadline n" "net m = net n" "tls_peer m = tls_peer n" "wdeadline m = wdeadline n"
      "now m + lag m = now n + lag n"
proof (cases "passed (wdeadline n) (now n)")
  case True
  with assms late show ?thesis by (simp add: conn_Write_def)
next
  case False
  show ?thesis
  proof (cases "wslow n")
    case Nil
    with assms False sends [of n] show ?thesis by (simp add: conn_Write_def)
  next
    case (Cons dt ds)
    show ?thesis
    proof (cases "passed (wdeadline n) (now n + int dt)")
      case True
      with assms False Cons stalled show ?thesis by (simp add: conn_Write_def)
    next
      case no: False
      show ?thesis
        by (rule sends [of "n\<lparr>wslow := ds, now := now n + int dt\<rparr>"])
          (use assms False Cons no in \<open>simp_all add: conn_Write_def lag_def\<close>)
    qed
  qed
qed

lemma conn_Write_None:
  assumes "conn_Write p n = (None, n')"
  shows "sent n' = sent n @ p \<and> now n' + lag n' = now n + lag n"
  using assms
proof (cases rule: conn_Write_cases)
  case (sends m)
  then show ?thesis using conn_Send_None [of p m n'] conn_Send_frame [of p m None n'] by (simp add: lag_def)
qed simp_all

lemma conn_Write_Some:
  assumes "conn_Write p n = (Some e, n')"
  shows "prefix (sent n') (sent n @ p)"
  using assms
proof (cases rule: conn_Write_cases)
  case (sends m)
  then show ?thesis using conn_Send_Some [of p m e n'] by simp
qed simp_all

lemma conn_Write_frame:
  assumes "conn_Write p n = (r, n')"
  shows "now n \<le> now n' \<and> rdeadline n' = rdeadline n \<and> net n' = net n \<and> tls_peer n' = tls_peer n
     \<and> wdeadline n' = wdeadline n \<and> lag n' \<le> lag n"
  using assms
proof (cases rule: conn_Write_cases)
  case (stalled dt ds)
  then show ?thesis by (cases "wdeadline n") (auto simp: lag_def)
next
  case (sends m)
  then show ?thesis using conn_Send_frame [of p m r n'] by (auto simp: lag_def)
qed simp

text \<open>With a deadline no write ends later than it.\<close>

lemma conn_Write_deadline:
  assumes "conn_Write p n = (r, n')" and "wdeadline n = Some d"
  shows "now n' \<le> max (now n) d"
  using assms(1)
proof (cases rule: conn_Write_cases)
  case (sends m)
  then show ?thesis using conn_Send_frame [of p m r n'] assms(2) by auto
qed (use assms(2) in simp_all)

lemma writeDeadlineConn_None:
  "writeDeadlineConn_Write t p n = (None, n') \<Longrightarrow> sent n' = sent n @ p \<and> now n' + lag n' = now n + lag n"
  by (auto simp: writeDeadlineConn_Write_def split: if_splits dest: conn_Write_None)

lemma writeDeadlineConn_Some:
  "writeDeadlineConn_Write t p n = (Some e, n') \<Longrightarrow> prefix (sent n') (sent n @ p)"
  by (auto simp: writeDeadlineConn_Write_def split: if_splits dest: conn_Write_Some)

lemma writeDeadlineConn_frame:
  assumes "writeDeadlineConn_Write t p n = (r, n')"
  shows "now n \<le> now n' \<and> rdeadline n' = rdeadline n \<and> net n' = net n \<and> tls_peer n' = tls_peer n
    \<and> (t \<le> 0 \<longrightarrow> wdeadline n' = wdeadline n) \<and> lag n' \<le> lag n"
  using conn_Write_frame [OF assms [unfolded writeDeadlineConn_Write_def]] by (auto split: if_splits)

text \<open>A write of the wrapped connection waits no longer than the timeout.\<close>

lemma writeDeadlineConn_timeout:
  "writeDeadlineConn_Write t p n = (r, n') \<Longrightarrow> 0 < t \<Longrightarrow> now n' \<le> now n + t"
  using conn_Write_deadline [of p "n\<lparr>wdeadline := Some (now n + t)\<rparr>" r n' "now n + t"]
  by (auto simp: writeDeadlineConn_Write_def)

lemma writeDeadlineConn_healthy:
  assumes "wbudget n = None" "wslow n = []" "0 < t \<or> \<not> passed (wdeadline n) (now n)"
  shows "\<exists>d. writeDeadlineConn_Write t p n = (None, n\<lparr>sent := sent n @ p, wdeadline := d\<rparr>)
    \<and> (0 < t \<or> d = wdeadline n)"
  using assms
  by (cases "0 < t") (auto simp: writeDeadlineConn_Write_def conn_Write_def conn_Send_def
      intro: exI [of _ "Some (now n + t)"] exI [of _ "wdeadline n"])

lemma write_all_None:
  "write_all w n s = (None, w', n') \<Longrightarrow> werr w = None \<Longrightarrow>
     werr w' = None \<and> sent n' @ wbuf w' = sent n @ s"
proof (induction w n s rule: write_all.induct)
  case (1 w n s)
  show ?case
  proof (cases "length s \<le> bufsize")
    case True
    with "1.prems" show ?thesis by (auto simp: write_all.simps [of w n s])
  next
    case False
    obtain r m where cw: "writeDeadlineConn_Write (wtimeout w) (take bufsize s) n = (r, m)" by fastforce
    with False "1.prems" have r: "r = None"
      by (cases r) (auto simp: write_all.simps [of w n s])
    with False "1.prems" cw have "write_all w m (drop bufsize s) = (None, w', n')"
      by (simp add: write_all.simps [of w n s])
    with "1.IH" False cw r "1.prems" have
      "werr w' = None \<and> sent n' @ wbuf w' = sent m @ drop bufsize s" by simp
    moreover have "sent m = sent n @ take bufsize s" using cw r writeDeadlineConn_None by simp
    ultimately show ?thesis by simp
  qed
qed

lemma write_all_Some:
  "write_all w n s = (Some e, w', n') \<Longrightarrow> werr w' = Some e \<and> prefix (sent n') (sent n @ s)"
proof (induction w n s rule: write_all.induct)
  case (1 w n s)
  have long: "\<not> length s \<le> bufsize"
    using "1.prems" by (auto simp: write_all.simps [of w n s])
  obtain r m where cw: "writeDeadlineConn_Write (wtimeout w) (take bufsize s) n = (r, m)" by fastforce
  show ?case
  proof (cases r)
    case None
    with long "1.prems" cw have "write_all w m (drop bufsize s) = (Some e, w', n')"
      by (simp add: write_all.simps [of w n s])
    with "1.IH" long cw None have "werr w' = Some e \<and> prefix (sent n') (sent m @ drop bufsize s)"
      by simp
    moreover have "sent m = sent n @ take bufsize s" using cw None writeDeadlineConn_None by simp
    ultimately show ?thesis by simp
  next
    case (Some f)
    with long "1.prems" cw have "werr w' = Some e" and m: "n' = m"
      by (auto simp: write_all.simps [of w n s])
    moreover have "prefix (sent m) (sent n @ take bufsize s)"
      using cw Some writeDeadlineConn_Some by simp
    then have "prefix (sent m) (sent n @ s)"
      by (metis append_take_drop_id append_assoc prefix_prefix)
    ultimately show ?thesis by simp
  qed
qed

text \<open>
  What the writer does to the connection under it: the input and the read deadline stay, its buffer
  does not grow beyond its size, and the
  clock moves at most once by the write timeout beyond the time the peer holds up the writes that
  succeed, because a writer that has failed writes nothing more (\<open>room\<close>). Without a timeout of its own the writer keeps to the deadline that is set.
\<close>

definition room :: "bufw \<Rightarrow> int" where
  "room w = (if werr w = None then wtimeout w else 0)"

definition writes_to :: "bufw \<times> Net \<Rightarrow> bufw \<times> Net \<Rightarrow> bool" where
  "writes_to wn wn' \<longleftrightarrow>
     rdeadline (snd wn') = rdeadline (snd wn) \<and> net (snd wn') = net (snd wn)
     \<and> tls_peer (snd wn') = tls_peer (snd wn) \<and> wtimeout (fst wn') = wtimeout (fst wn)
     \<and> (length (wbuf (fst wn)) \<le> bufsize \<longrightarrow> length (wbuf (fst wn')) \<le> bufsize)
     \<and> now (snd wn) \<le> now (snd wn') \<and> lag (snd wn') \<le> lag (snd wn)
     \<and> (wtimeout (fst wn) > 0 \<longrightarrow>
          now (snd wn') + room (fst wn') + lag (snd wn') \<le> now (snd wn) + room (fst wn) + lag (snd wn))
     \<and> (wtimeout (fst wn) \<le> 0 \<longrightarrow> wdeadline (snd wn') = wdeadline (snd wn)
          \<and> (\<forall>d. wdeadline (snd wn) = Some d \<longrightarrow> now (snd wn') \<le> max (now (snd wn)) d))"

lemma writes_to_refl [simp]: "writes_to wn wn"
  by (simp add: writes_to_def)

lemma writes_to_trans [trans]: "writes_to a b \<Longrightarrow> writes_to b c \<Longrightarrow> writes_to a c"
  by (auto simp: writes_to_def)

lemma writeDeadlineConn_writes_to:
  assumes "writeDeadlineConn_Write (wtimeout w) p n = (r, n')" "werr w = None"
    and "werr w' = r" "wtimeout w' = wtimeout w" "length (wbuf w) \<le> bufsize \<longrightarrow> length (wbuf w') \<le> bufsize"
  shows "writes_to (w, n) (w', n')"
proof -
  have "now n' \<le> max (now n) d" if "wtimeout w \<le> 0" "wdeadline n = Some d" for d
    using conn_Write_deadline [of p n r n' d] assms(1) that by (auto simp: writeDeadlineConn_Write_def)
  moreover have "now n' + room w' + lag n' \<le> now n + room w + lag n" if "0 < wtimeout w"
    using writeDeadlineConn_timeout [OF assms(1) that] writeDeadlineConn_frame [OF assms(1)]
      writeDeadlineConn_None [of "wtimeout w" p n n'] assms
    by (cases r) (auto simp: room_def)
  ultimately show ?thesis
    using writeDeadlineConn_frame [OF assms(1)] assms(4,5) by (auto simp: writes_to_def)
qed

lemma write_all_writes_to:
  "write_all w n s = (r, w', n') \<Longrightarrow> werr w = None \<Longrightarrow> writes_to (w, n) (w', n')"
proof (induction w n s rule: write_all.induct)
  case (1 w n s)
  obtain q m where cw: "writeDeadlineConn_Write (wtimeout w) (take bufsize s) n = (q, m)" by fastforce
  note st = writeDeadlineConn_writes_to [OF cw "1.prems"(2)]
  show ?case
  proof (cases "length s \<le> bufsize")
    case True
    with "1.prems" show ?thesis by (auto simp: write_all.simps [of w n s] writes_to_def room_def)
  next
    case False
    show ?thesis
    proof (cases q)
      case None
      have "write_all w m (drop bufsize s) = (r, w', n')"
        using "1.prems"(1) False cw None by (simp add: write_all.simps [of w n s])
      with "1.IH" [OF False cw [symmetric] None] "1.prems"(2) have "writes_to (w, m) (w', n')" by simp
      moreover have "writes_to (w, n) (w, m)" by (rule st) (simp_all add: None "1.prems"(2))
      ultimately show ?thesis by (rule writes_to_trans [rotated])
    next
      case (Some e)
      then have w': "w' = w\<lparr>werr := q\<rparr>" "n' = m"
        using "1.prems"(1) False cw by (auto simp: write_all.simps [of w n s])
      show ?thesis unfolding w' by (rule st) simp_all
    qed
  qed
qed

lemma bufw_Write_None:
  "bufw_Write wn s = (None, wn') \<Longrightarrow> stream wn' = stream wn @ s"
  by (cases wn; cases wn')
    (auto simp: bufw_Write_def stream_def split: option.splits dest: write_all_None)

lemma bufw_Write_Some:
  "bufw_Write wn s = (Some e, wn') \<Longrightarrow> prefix (stream wn') (stream wn @ s)"
  by (cases wn; cases wn')
    (auto simp: bufw_Write_def stream_def split: option.splits dest: write_all_Some)

lemma bufw_Write_writes_to: "bufw_Write wn s = (r, wn') \<Longrightarrow> writes_to wn wn'"
  by (cases wn; cases wn') (auto simp: bufw_Write_def split: option.splits dest: write_all_writes_to)

lemma Flush_writes_to: "Flush wn = (r, wn') \<Longrightarrow> writes_to wn wn'"
proof -
  assume f: "Flush wn = (r, wn')"
  obtain w n where wn: "wn = (w, n)" by (cases wn)
  obtain q m where cw: "writeDeadlineConn_Write (wtimeout w) (wbuf w) n = (q, m)" by fastforce
  show ?thesis
  proof (cases "werr w = None")
    case True
    show ?thesis
      using f True cw
      by (auto simp: Flush_def wn split: if_splits option.splits intro: writeDeadlineConn_writes_to [OF cw True])
  next
    case False
    with f show ?thesis by (auto simp: Flush_def wn split: option.splits)
  qed
qed

lemma writes_to_keeps:
  assumes "writes_to wn wn'"
  shows "rdeadline (snd wn') = rdeadline (snd wn)" "net (snd wn') = net (snd wn)"
    "tls_peer (snd wn') = tls_peer (snd wn)" "wtimeout (fst wn') = wtimeout (fst wn)"
    "now (snd wn) \<le> now (snd wn')"
    "length (wbuf (fst wn)) \<le> bufsize \<Longrightarrow> length (wbuf (fst wn')) \<le> bufsize"
  using assms by (simp_all add: writes_to_def)

lemma bufw_Write_steady: "writes_to wn (snd (bufw_Write wn s))"
  by (rule bufw_Write_writes_to [OF prod.collapse [symmetric]])

lemma Flush_steady: "writes_to wn (snd (Flush wn))"
  by (rule Flush_writes_to [OF prod.collapse [symmetric]])

lemmas bufw_Write_keeps [simp] = writes_to_keeps(1-4) [OF bufw_Write_steady]

lemmas Flush_keeps [simp] = writes_to_keeps(1-4) [OF Flush_steady]

lemma healthy_write_all:
  assumes "healthy (w, n)"
  shows "fst (write_all w n s) = None \<and> healthy (snd (write_all w n s))
    \<and> now (snd (snd (write_all w n s))) = now n"
  using assms
proof (induction w n s rule: write_all.induct)
  case (1 w n s)
  obtain d where cw: "writeDeadlineConn_Write (wtimeout w) (take bufsize s) n =
      (None, n\<lparr>sent := sent n @ take bufsize s, wdeadline := d\<rparr>)" "0 < wtimeout w \<or> d = wdeadline n"
    using writeDeadlineConn_healthy [of n "wtimeout w" "take bufsize s"] "1.prems" by (auto simp: healthy_def)
  show ?case
    using "1.IH" [OF _ cw(1) [symmetric]] "1.prems" cw by (auto simp: write_all.simps [of w n s] healthy_def)
qed

lemma healthy_bufw_Write:
  assumes "healthy wn"
  shows "\<exists>wn'. bufw_Write wn s = (None, wn') \<and> healthy wn' \<and> stream wn' = stream wn @ s
    \<and> now (snd wn') = now (snd wn)"
proof -
  obtain w n where wn: "wn = (w, n)" by (cases wn)
  obtain r w' n' where wa: "write_all w n (wbuf w @ s) = (r, w', n')" by (metis prod_cases3)
  have r: "r = None" "healthy (w', n')" "now n' = now n"
    using assms wn wa healthy_write_all [of w n "wbuf w @ s"] by auto
  then have bw: "bufw_Write wn s = (None, w', n')"
    using assms wn wa by (simp add: bufw_Write_def healthy_def)
  show ?thesis using r bw bufw_Write_None [OF bw] wn by auto
qed

lemma healthy_Flush:
  assumes "healthy wn"
  shows "\<exists>w n. Flush wn = (None, w, n) \<and> healthy (w, n) \<and> stream (w, n) = stream wn
    \<and> sent n = stream wn \<and> wbuf w = [] \<and> now n = now (snd wn)"
proof -
  obtain w n where wn: "wn = (w, n)" by (cases wn)
  obtain d where "writeDeadlineConn_Write (wtimeout w) (wbuf w) n =
      (None, n\<lparr>sent := sent n @ wbuf w, wdeadline := d\<rparr>)" "0 < wtimeout w \<or> d = wdeadline n"
    using writeDeadlineConn_healthy [of n "wtimeout w" "wbuf w"] assms wn by (auto simp: healthy_def)
  then show ?thesis using assms wn by (auto simp: Flush_def healthy_def stream_def)
qed

section \<open>What the reader returns\<close>

text \<open>
  \<open>pending buf n evs p\<close>: the bytes \<open>p\<close> are in the buffer or arrive, in whatever segments,
  before the read deadline; \<open>evs\<close> is what the peer does after them.
\<close>

definition payload :: "(nat \<times> net_event) list \<Rightarrow> bytes" where
  "payload ds = concat (map (\<lambda>(dt, e). case e of NData bs \<Rightarrow> bs | _ \<Rightarrow> []) ds)"

definition prompt :: "Net \<Rightarrow> (nat \<times> net_event) list \<Rightarrow> bool" where
  "prompt n ds =
     (list_all (\<lambda>(dt, e). case e of NData _ \<Rightarrow> True | _ \<Rightarrow> False) ds
      \<and> (case rdeadline n of None \<Rightarrow> True | Some d \<Rightarrow> now n + int (sum_list (map fst ds)) \<le> d))"

definition pending :: "bytes \<Rightarrow> Net \<Rightarrow> (nat \<times> net_event) list \<Rightarrow> bytes \<Rightarrow> bool" where
  "pending buf n evs p \<longleftrightarrow>
     length buf \<le> bufsize \<and> (\<exists>ds. net n = ds @ evs \<and> prompt n ds \<and> buf @ payload ds = p)"

definition same_peer :: "Net \<Rightarrow> Net \<Rightarrow> bool" where
  "same_peer n n' \<longleftrightarrow> rdeadline n' = rdeadline n \<and> tls_peer n' = tls_peer n \<and> sent n' = sent n
     \<and> wbudget n' = wbudget n \<and> wdeadline n' = wdeadline n \<and> wslow n' = wslow n \<and> now n \<le> now n'"

lemma same_peer_refl [simp]: "same_peer n n"
  by (simp add: same_peer_def)

lemma same_peer_trans [trans]: "same_peer a b \<Longrightarrow> same_peer b c \<Longrightarrow> same_peer a c"
  by (auto simp: same_peer_def)

lemma conn_Read_same_peer: "conn_Read k n = (r, n') \<Longrightarrow> same_peer n n'"
  by (auto simp: conn_Read_def same_peer_def Let_def
      split: list.splits option.splits if_splits net_event.splits prod.splits)

lemma ReadSlice_same_peer: "ReadSlice buf n = (r, rest, n') \<Longrightarrow> same_peer n n'"
proof (induction buf n rule: ReadSlice.induct)
  case (1 buf n)
  obtain q m where cr: "conn_Read (bufsize - length buf) n = (q, m)" by fastforce
  show ?case
    using 1 conn_Read_same_peer [OF cr] cr
    by (auto simp: ReadSlice.simps [of buf n] split: if_splits read_result.splits
        intro: same_peer_trans)
qed

lemma ReadLine_same_peer: "ReadLine buf n = (r, rest, n') \<Longrightarrow> same_peer n n'"
  by (auto simp: ReadLine_def Let_def split: prod.splits slice_result.splits if_splits
      dest: ReadSlice_same_peer)

lemma conn_Read_prompt:
  assumes "net n = x # ds @ evs" and "prompt n (x # ds)" and "0 < k"
  shows "\<exists>bs ds' n'. conn_Read k n = (RData bs, n') \<and> net n' = ds' @ evs \<and> prompt n' ds'
    \<and> payload (x # ds) = bs @ payload ds' \<and> length bs \<le> k"
proof -
  obtain dt bs where x: "x = (dt, NData bs)"
    using assms(2) by (cases x) (auto simp: prompt_def split: net_event.splits)
  let ?ds = "if length bs \<le> k then ds else (0, NData (drop k bs)) # ds"
  let ?n = "n\<lparr>now := now n + int dt, net := ?ds @ evs\<rparr>"
  have "conn_Read k n = (RData (take k bs), ?n)"
    using assms x by (auto simp: conn_Read_def prompt_def Let_def split: option.splits)
  moreover have "prompt ?n ?ds" using assms(2) x by (auto simp: prompt_def split: option.splits)
  moreover have "payload (x # ds) = take k bs @ payload ?ds" using x by (simp add: payload_def)
  ultimately show ?thesis by (intro exI [of _ "take k bs"] exI [of _ ?ds] exI [of _ ?n]) simp
qed

lemma take_no_LF: "LF \<notin> set (take k (l @ LF # rest)) \<Longrightarrow> k \<le> length l"
  by (cases "k - length l") simp_all

lemma ReadSlice_pending:
  assumes "pending buf n evs (l @ LF # rest)" and "LF \<notin> set l"
  shows "\<exists>r buf' n'. ReadSlice buf n = (r, buf', n')
    \<and> (if length l < bufsize then r = SLine (l @ [LF]) \<and> pending buf' n' evs rest
       else r = SFull (take bufsize l) \<and> buf' = []
         \<and> pending [] n' evs (drop bufsize l @ LF # rest))"
  using assms
proof (induction buf n rule: ReadSlice.induct)
  case (1 buf n)
  obtain ds where ds: "length buf \<le> bufsize" "net n = ds @ evs" "prompt n ds"
    "buf @ payload ds = l @ LF # rest"
    using "1.prems" by (auto simp: pending_def)
  consider (line) "LF \<in> set buf" | (full) "LF \<notin> set buf" "length buf = bufsize"
    | (more) "LF \<notin> set buf" "length buf < bufsize"
    using ds(1) by linarith
  then show ?case
  proof cases
    case line
    then obtain b c where buf: "buf = b @ LF # c" "LF \<notin> set b" by (meson split_list_first)
    with ds(4) "1.prems"(2) have "b = l" "rest = c @ payload ds"
      by (auto simp: append_eq_append_conv2 Cons_eq_append_conv append_eq_Cons_conv)
    moreover from this buf have "ReadSlice buf n = (SLine (l @ [LF]), c, n)"
      by (simp add: ReadSlice_line)
    ultimately show ?thesis using buf ds(1-3) by (auto simp: pending_def)
  next
    case full
    have split: "buf = take bufsize (l @ LF # rest)" "payload ds = drop bufsize (l @ LF # rest)"
      using ds(4) full(2) by (metis append_eq_conv_conj)+
    have len: "bufsize \<le> length l"
      using full(1) by (intro take_no_LF [of bufsize l rest]) (simp only: split(1) [symmetric] not_False_eq_True)
    with split have "buf = take bufsize l" and "payload ds = drop bufsize l @ LF # rest"
      by simp_all
    moreover from full have "ReadSlice buf n = (SFull buf, [], n)"
      by (subst ReadSlice.simps) simp
    ultimately show ?thesis using len ds by (auto simp: pending_def)
  next
    case more
    obtain x ds0 where x: "ds = x # ds0"
      using ds(4) more(1) by (cases ds) (auto simp: payload_def)
    obtain bs ds' n' where rd: "conn_Read (bufsize - length buf) n = (RData bs, n')"
      "net n' = ds' @ evs" "prompt n' ds'" "payload ds = bs @ payload ds'"
      "length bs \<le> bufsize - length buf"
      using conn_Read_prompt [of n x ds0 evs "bufsize - length buf"] ds x more(2) by auto
    have "pending (buf @ bs) n' evs (l @ LF # rest)"
      using rd ds(4) more(2) by (auto simp: pending_def)
    with "1.IH" [OF more(1) _ rd(1) [symmetric] refl] more "1.prems"(2)
    show ?thesis using rd(1) by (simp add: ReadSlice.simps [of buf n])
  qed
qed

text \<open>A line without its line feed and one carriage return before it.\<close>

definition strip_cr :: "bytes \<Rightarrow> bytes" where
  "strip_cr l = (if l \<noteq> [] \<and> last l = CR then butlast l else l)"

lemma strip_cr_append: "m \<noteq> [] \<or> last l \<noteq> CR \<Longrightarrow> strip_cr (l @ m) = l @ strip_cr m"
  by (auto simp: strip_cr_def butlast_append)

lemma length_strip_cr: "length (strip_cr l) \<le> length l"
  by (simp add: strip_cr_def)

text \<open>
  \<^verbatim>\<open>ReadLine\<close> either returns the whole line, or a non-empty first part of it that its callers
  put the rest behind.
\<close>

lemma ReadLine_pending:
  assumes "pending buf n evs (l @ LF # rest)" and "LF \<notin> set l"
  shows "(\<exists>buf' n'. ReadLine buf n = (LLine (strip_cr l) False, buf', n') \<and> pending buf' n' evs rest)
    \<or> (\<exists>c m buf' n'. ReadLine buf n = (LLine c True, buf', n') \<and> c \<noteq> [] \<and> l = c @ m
        \<and> strip_cr l = c @ strip_cr m \<and> pending buf' n' evs (m @ LF # rest))"
proof -
  obtain r buf' n' where rs: "ReadSlice buf n = (r, buf', n')"
    "if length l < bufsize then r = SLine (l @ [LF]) \<and> pending buf' n' evs rest
     else r = SFull (take bufsize l) \<and> buf' = [] \<and> pending [] n' evs (drop bufsize l @ LF # rest)"
    using ReadSlice_pending [OF assms] by blast
  show ?thesis
  proof (cases "length l < bufsize")
    case True
    with rs show ?thesis by (auto simp: ReadLine_def strip_cr_def)
  next
    case False
    let ?c = "take bufsize l" and ?m = "drop bufsize l"
    have c: "?c \<noteq> []" "1 < length ?c" using False by (auto simp: bufsize_def)
    show ?thesis
    proof (cases "last ?c = CR")
      case True
      have "l = butlast ?c @ CR # ?m"
        using c True by (metis append_butlast_last_id append_take_drop_id append.assoc append_Cons append_Nil)
      moreover have "butlast ?c \<noteq> []" using c by (auto simp flip: length_greater_0_conv)
      moreover have "pending [CR] n' evs ((CR # ?m) @ LF # rest)"
        using rs False by (auto simp: pending_def bufsize_def)
      moreover have "ReadLine buf n = (LLine (butlast ?c) True, [CR], n')"
        using rs False True c by (auto simp: ReadLine_def)
      ultimately show ?thesis by (metis strip_cr_append list.distinct(1))
    next
      case other: False
      have "ReadLine buf n = (LLine ?c True, [], n')"
        using rs False other c by (auto simp: ReadLine_def)
      moreover have "strip_cr l = ?c @ strip_cr ?m"
        using strip_cr_append [of ?m ?c] other by simp
      ultimately show ?thesis using rs False c by (metis append_take_drop_id)
    qed
  qed
qed

section \<open>Reading under a deadline\<close>

text \<open>With a deadline no read waits for ever, and none returns later than it.\<close>

lemma conn_Read_deadline:
  assumes "conn_Read k n = (r, n')" and "rdeadline n = Some d"
  shows "r \<noteq> RBlock" and "now n' \<le> max (now n) d"
  using assms
  by (auto simp: conn_Read_def Let_def split: list.splits if_splits net_event.splits prod.splits)

lemma ReadSlice_deadline:
  "ReadSlice buf n = (r, rest, n') \<Longrightarrow> rdeadline n = Some d \<Longrightarrow> r \<noteq> SBlock \<and> now n' \<le> max (now n) d"
proof (induction buf n rule: ReadSlice.induct)
  case (1 buf n)
  obtain q m where cr: "conn_Read (bufsize - length buf) n = (q, m)" by fastforce
  note dl = conn_Read_deadline [OF cr "1.prems"(2)]
  have rd: "rdeadline m = Some d"
    using conn_Read_same_peer [OF cr] "1.prems"(2) by (simp add: same_peer_def)
  show ?case
  proof (cases "LF \<in> set buf \<or> bufsize \<le> length buf")
    case True
    with "1.prems" show ?thesis by (auto simp: ReadSlice.simps [of buf n] split: if_splits)
  next
    case False
    then show ?thesis
      using "1.IH" [OF _ _ cr [symmetric]] "1.prems" cr dl rd
      by (cases q) (fastforce simp: ReadSlice.simps [of buf n])+
  qed
qed

lemma ReadLine_deadline:
  "ReadLine buf n = (r, rest, n') \<Longrightarrow> rdeadline n = Some d \<Longrightarrow> r \<noteq> LBlock \<and> now n' \<le> max (now n) d"
  using ReadSlice_deadline [of buf n]
  by (auto simp: ReadLine_def Let_def split: prod.splits slice_result.splits if_splits)

end
