(* ===== verification/DotStuff.thy ===== *)
theory DotStuff
  imports Bufio
begin

text \<open>
  \<^verbatim>\<open>pop3server/dotstuff.go\<close>: the writer that dot-stuffs a message body on the way to the
  client, and the part of \<^verbatim>\<open>io.Copy\<close> that feeds it. The wrapped \<^verbatim>\<open>io.Writer\<close> is an
  argument of the operations; what they rely on is the locale \<open>byte_sink\<close>, interpreted on
  the buffered writer of the connection.

  The reference is stated on lines: normalise line ends, terminate the last line, put a dot before
  every line that starts with one, add the terminator (\<open>wire_body\<close>).
\<close>

section \<open>The writer\<close>

record 'w dotStuffWriter =
  dsw_w :: 'w
  atLineStart :: bool
  lastByte :: char

definition newDotStuffWriter :: "'w \<Rightarrow> 'w dotStuffWriter" where
  "newDotStuffWriter w = \<lparr>dsw_w = w, atLineStart = True, lastByte = NUL\<rparr>"

type_synonym 'w io_writer = "'w \<Rightarrow> bytes \<Rightarrow> err option \<times> 'w"

text \<open>A write to the wrapped writer, and what runs only when it returned no error.\<close>

definition put :: "'w io_writer \<Rightarrow> bytes \<Rightarrow> 'w dotStuffWriter \<Rightarrow> err option \<times> 'w dotStuffWriter" where
  "put wr p d = (let (e, w) = wr (dsw_w d) p in (e, d\<lparr>dsw_w := w\<rparr>))"

fun unless_err :: "err option \<times> 'd \<Rightarrow> ('d \<Rightarrow> err option \<times> 'd) \<Rightarrow> err option \<times> 'd" where
  "unless_err (Some e, d) f = (Some e, d)"
| "unless_err (None, d) f = f d"

text \<open>The body of the loop of \<^verbatim>\<open>Write\<close>, one input byte.\<close>

definition write_byte :: "'w io_writer \<Rightarrow> char \<Rightarrow> 'w dotStuffWriter \<Rightarrow> err option \<times> 'w dotStuffWriter" where
  "write_byte wr b d =
     unless_err
       (if b = LF then
          unless_err
            (unless_err (if lastByte d \<noteq> CR then put wr [CR] d else (None, d)) (put wr [LF]))
            (\<lambda>d. (None, d\<lparr>atLineStart := True\<rparr>))
        else if b = CR then
          unless_err (put wr [CR] d) (\<lambda>d. (None, d\<lparr>atLineStart := False\<rparr>))
        else
          unless_err
            (unless_err (if atLineStart d \<and> b = DOT then put wr [DOT] d else (None, d)) (put wr [b]))
            (\<lambda>d. (None, d\<lparr>atLineStart := False\<rparr>)))
       (\<lambda>d. (None, d\<lparr>lastByte := b\<rparr>))"

text \<open>\<^verbatim>\<open>Write\<close>: the number of input bytes processed, the error, the writer.\<close>

fun dsw_Write_from :: "'w io_writer \<Rightarrow> nat \<Rightarrow> bytes \<Rightarrow> 'w dotStuffWriter \<Rightarrow>
    (nat \<times> err option) \<times> 'w dotStuffWriter" where
  "dsw_Write_from wr i [] d = ((i, None), d)"
| "dsw_Write_from wr i (b # p) d =
     (case write_byte wr b d of
        (Some e, d') \<Rightarrow> ((i, Some e), d')
      | (None, d') \<Rightarrow> dsw_Write_from wr (Suc i) p d')"

definition dsw_Write :: "'w io_writer \<Rightarrow> 'w dotStuffWriter \<Rightarrow> bytes \<Rightarrow>
    (nat \<times> err option) \<times> 'w dotStuffWriter" where
  "dsw_Write wr d p = dsw_Write_from wr 0 p d"

definition dsw_Close :: "'w io_writer \<Rightarrow> 'w dotStuffWriter \<Rightarrow> err option \<times> 'w dotStuffWriter" where
  "dsw_Close wr d =
     unless_err
       (if \<not> atLineStart d then put wr (if lastByte d = CR then [LF] else CRLF) d else (None, d))
       (put wr (DOT # CRLF))"

section \<open>Copying a body\<close>

text \<open>
  A body as \<^verbatim>\<open>io.Copy\<close> sees it: the chunks its reads return, then how it ends.
\<close>

datatype body_end = BodyEOF | BodyErr err | BodyPanic

fun io_Copy :: "'w io_writer \<Rightarrow> bytes list \<Rightarrow> 'w dotStuffWriter \<Rightarrow> err option \<times> 'w dotStuffWriter" where
  "io_Copy wr [] d = (None, d)"
| "io_Copy wr (p # ps) d =
     (case dsw_Write wr d p of
        ((_, Some e), d') \<Rightarrow> (Some e, d')
      | ((_, None), d') \<Rightarrow> io_Copy wr ps d')"

section \<open>The reference\<close>

text \<open>
  Line ends: a line feed that does not follow a carriage return gets one. \<open>prev\<close> is the byte
  before.
\<close>

fun crlf_norm :: "char \<Rightarrow> bytes \<Rightarrow> bytes" where
  "crlf_norm prev [] = []"
| "crlf_norm prev (b # s) =
     (if b = LF \<and> prev \<noteq> CR then CR # LF # crlf_norm b s else b # crlf_norm b s)"

definition terminated :: "bytes \<Rightarrow> bytes" where
  "terminated s =
     (if s = [] \<or> last s = LF then s else if last s = CR then s @ [LF] else s @ CRLF)"

text \<open>The lines of a text, each with its line feed; the last one may lack it.\<close>

fun lines_of :: "bytes \<Rightarrow> bytes list" where
  "lines_of [] = []"
| "lines_of (b # s) =
     (if b = LF then [LF] # lines_of s
      else case lines_of s of [] \<Rightarrow> [[b]] | l # ls \<Rightarrow> (b # l) # ls)"

fun stuff_line :: "bytes \<Rightarrow> bytes" where
  "stuff_line (b # l) = (if b = DOT then DOT # b # l else b # l)"
| "stuff_line [] = []"

definition delivered :: "bytes \<Rightarrow> bytes" where
  "delivered s = terminated (crlf_norm NUL s)"

definition stuffed_body :: "bytes \<Rightarrow> bytes" where
  "stuffed_body s = concat (map stuff_line (lines_of (delivered s)))"

definition wire_body :: "bytes \<Rightarrow> bytes" where
  "wire_body s = stuffed_body s @ DOT # CRLF"

section \<open>Stuffing byte by byte\<close>

fun stuff_from :: "bool \<Rightarrow> bytes \<Rightarrow> bytes" where
  "stuff_from start [] = []"
| "stuff_from start (b # s) = (if start \<and> b = DOT then [DOT] else []) @ b # stuff_from (b = LF) s"

lemma stuff_from_append:
  "stuff_from start (s @ t) = stuff_from start s @ stuff_from (if s = [] then start else last s = LF) t"
  by (induction s arbitrary: start) auto

lemma lines_of_eq_Nil [simp]: "lines_of s = [] \<longleftrightarrow> s = []"
  by (cases s) (auto split: list.splits)

lemma concat_lines_of [simp]: "concat (lines_of s) = s"
  by (induction s rule: lines_of.induct) (auto split: list.splits)

lemma lines_of_nonempty: "l \<in> set (lines_of s) \<Longrightarrow> l \<noteq> []"
  by (induction s arbitrary: l rule: lines_of.induct) (auto split: list.splits if_splits)

lemma stuff_from_lines:
  "stuff_from start s =
     (case lines_of s of
        [] \<Rightarrow> []
      | l # ls \<Rightarrow> (if start then stuff_line l else l) @ concat (map stuff_line ls))"
proof (induction s arbitrary: start)
  case (Cons b s)
  show ?case
  proof (cases "lines_of s")
    case Nil
    then show ?thesis by auto
  next
    case (Cons l ls)
    with Cons.IH [of True] Cons.IH [of False] show ?thesis by auto
  qed
qed simp

lemma concat_stuff_lines: "concat (map stuff_line (lines_of s)) = stuff_from True s"
  by (simp add: stuff_from_lines split: list.splits)

lemma crlf_norm_append:
  "crlf_norm prev (s @ t) = crlf_norm prev s @ crlf_norm (if s = [] then prev else last s) t"
  by (induction s arbitrary: prev) auto

lemma crlf_norm_eq_Nil [simp]: "crlf_norm prev s = [] \<longleftrightarrow> s = []"
  by (cases s) auto

lemma last_crlf_norm [simp]: "s \<noteq> [] \<Longrightarrow> last (crlf_norm prev s) = last s"
  by (induction s arbitrary: prev) auto


lemma stuff_crlf_Cons:
  "stuff_from start (crlf_norm prev (b # p)) =
     stuff_from start (crlf_norm prev [b]) @ stuff_from (b = LF) (crlf_norm b p)"
  using crlf_norm_append [of prev "[b]" p]
  by (simp add: stuff_from_append del: crlf_norm.simps(2))

section \<open>The loop, whatever the wrapped writer does\<close>

lemma put_flags:
  "put wr p d = (r, d') \<Longrightarrow> atLineStart d' = atLineStart d \<and> lastByte d' = lastByte d"
  by (auto simp: put_def split: prod.splits)

lemma unless_err_None: "unless_err r f = (None, d') \<longleftrightarrow> (\<exists>d. r = (None, d) \<and> f d = (None, d'))"
  by (cases "(r, f)" rule: unless_err.cases) auto

lemma write_byte_flags:
  "write_byte wr b d = (None, d') \<Longrightarrow> atLineStart d' = (b = LF) \<and> lastByte d' = b"
  by (auto simp: write_byte_def unless_err_None split: if_splits)

lemma dsw_Write_from_shift:
  "dsw_Write_from wr (i + k) p d = (let ((n, e), d') = dsw_Write_from wr i p d in ((n + k, e), d'))"
  by (induction p arbitrary: i d) (auto split: option.splits prod.splits simp flip: add_Suc)

lemma dsw_Write_Cons:
  "dsw_Write wr d (b # p) =
     (case write_byte wr b d of
        (Some e, d') \<Rightarrow> ((0, Some e), d')
      | (None, d') \<Rightarrow> (let ((n, e), d'') = dsw_Write wr d' p in ((Suc n, e), d'')))"
  using dsw_Write_from_shift [of wr 0 1 p]
  by (simp add: dsw_Write_def split: prod.splits option.splits)

lemma dsw_Write_Nil [simp]: "dsw_Write wr d [] = ((0, None), d)"
  by (simp add: dsw_Write_def)

lemma dsw_Write_None:
  "dsw_Write wr d p = ((n, None), d') \<Longrightarrow>
     n = length p \<and> (p \<noteq> [] \<longrightarrow> atLineStart d' = (last p = LF) \<and> lastByte d' = last p)
     \<and> (p = [] \<longrightarrow> d' = d)"
proof (induction p arbitrary: n d)
  case (Cons b p)
  obtain d1 where wb: "write_byte wr b d = (None, d1)"
    using Cons.prems by (auto simp: dsw_Write_Cons split: prod.splits option.splits)
  obtain m where m: "dsw_Write wr d1 p = ((m, None), d')" "n = Suc m"
    using Cons.prems wb by (auto simp: dsw_Write_Cons split: prod.splits option.splits)
  show ?case using Cons.IH [OF m(1)] m(2) write_byte_flags [OF wb] by (cases p) auto
qed simp

text \<open>
  The \<^verbatim>\<open>io.Writer\<close> contract on an error: fewer bytes than given are reported, they alone go
  through without an error, and the byte after them is the one that failed.
\<close>

lemma dsw_Write_Some:
  "dsw_Write wr d p = ((n, Some e), d') \<Longrightarrow>
     n < length p \<and> (\<exists>d1. dsw_Write wr d (take n p) = ((n, None), d1)
       \<and> write_byte wr (p ! n) d1 = (Some e, d'))"
proof (induction p arbitrary: n d)
  case (Cons b p)
  show ?case
  proof (cases "write_byte wr b d")
    case (Pair r d1)
    show ?thesis
    proof (cases r)
      case None
      with Pair Cons.prems obtain m where m: "dsw_Write wr d1 p = ((m, Some e), d')" "n = Suc m"
        by (auto simp: dsw_Write_Cons split: prod.splits)
      then show ?thesis
        using Cons.IH [OF m(1)] Pair None by (auto simp: dsw_Write_Cons)
    next
      case (Some x)
      with Pair Cons.prems show ?thesis by (auto simp: dsw_Write_Cons)
    qed
  qed
qed simp

lemma dsw_Write_append:
  "dsw_Write wr d (p @ q) =
     (case dsw_Write wr d p of
        ((n, Some e), d') \<Rightarrow> ((n, Some e), d')
      | ((n, None), d') \<Rightarrow> (let ((m, e), d'') = dsw_Write wr d' q in ((n + m, e), d'')))"
  by (induction p arbitrary: d) (auto simp: dsw_Write_Cons split: prod.splits option.splits)

text \<open>How the chunks of a body are cut makes no difference.\<close>

lemma io_Copy_concat:
  "io_Copy wr ps d = (let ((n, e), d') = dsw_Write wr d (concat ps) in (e, d'))"
  by (induction ps arbitrary: d) (auto simp: dsw_Write_append split: prod.splits option.splits)

section \<open>The contract of the wrapped writer\<close>

text \<open>
  What the code relies on when it calls \<^verbatim>\<open>w.Write\<close>: a write without an error has appended
  all its bytes, and one with an error has appended no more than them. \<open>content\<close> is what the
  writer has taken so far.
\<close>

locale byte_sink =
  fixes wr :: "'w \<Rightarrow> bytes \<Rightarrow> err option \<times> 'w"
    and content :: "'w \<Rightarrow> bytes"
  assumes wr_None: "wr w p = (None, w') \<Longrightarrow> content w' = content w @ p"
    and wr_Some: "wr w p = (Some e, w') \<Longrightarrow> prefix (content w') (content w @ p)"
begin

text \<open>A step from \<open>d\<close> that writes \<open>out\<close>, or fails having written no more than that.\<close>

definition emits :: "'w dotStuffWriter \<Rightarrow> bytes \<Rightarrow> err option \<times> 'w dotStuffWriter \<Rightarrow> bool" where
  "emits d out r =
     (if fst r = None then content (dsw_w (snd r)) = content (dsw_w d) @ out
      else prefix (content (dsw_w (snd r))) (content (dsw_w d) @ out))"

lemma emits_put: "emits d p (put wr p d)"
  using wr_None wr_Some
  by (cases "wr (dsw_w d) p"; cases "fst (wr (dsw_w d) p)") (auto simp: emits_def put_def)

lemma emits_nothing: "emits d [] (None, d)"
  by (simp add: emits_def)

lemma emits_seq:
  assumes "emits d a r" and "\<And>d'. r = (None, d') \<Longrightarrow> emits d' b (f d')"
  shows "emits d (a @ b) (unless_err r f)"
proof (cases r)
  case (Pair e d')
  show ?thesis
  proof (cases e)
    case None
    with Pair assms have "emits d' b (f d')" by simp
    with None Pair assms(1) show ?thesis by (auto simp: emits_def)
  next
    case (Some x)
    then show ?thesis
      using Pair assms(1) by (auto simp: emits_def intro: prefix_order.trans)
  qed
qed

lemma emits_seq_flag:
  assumes "emits d a r" and "\<And>d'. dsw_w (g d') = dsw_w d'"
  shows "emits d a (unless_err r (\<lambda>d'. (None, g d')))"
  using emits_seq [OF assms(1), of "[]" "\<lambda>d'. (None, g d')"] assms(2) by (simp add: emits_def)

lemma write_byte_emits:
  "emits d (stuff_from (atLineStart d) (crlf_norm (lastByte d) [b])) (write_byte wr b d)"
proof -
  have two: "emits d (x @ [c]) (unless_err (if P then put wr x d else (None, d)) (put wr [c]))"
    if "x = (if P then y else [])" for x y c P
    using that by (intro emits_seq emits_put) (auto intro: emits_put emits_nothing)
  show ?thesis
    unfolding write_byte_def
    by (intro emits_seq_flag)
      (use two [of "[CR]" "lastByte d \<noteq> CR" "[CR]" LF] two [of "[]" "lastByte d \<noteq> CR" "[CR]" LF]
         two [of "[DOT]" "atLineStart d \<and> b = DOT" "[DOT]" b]
         two [of "[]" "atLineStart d \<and> b = DOT" "[DOT]" b] emits_put [of d "[CR]"]
       in \<open>auto intro!: emits_seq_flag split: if_splits\<close>)
qed

lemma dsw_Write_emits:
  "emits d (stuff_from (atLineStart d) (crlf_norm (lastByte d) p))
     (snd (fst (dsw_Write wr d p)), snd (dsw_Write wr d p))"
proof (induction p arbitrary: d)
  case Nil
  show ?case by (simp add: emits_nothing)
next
  case (Cons b p)
  let ?rest = "\<lambda>d. (snd (fst (dsw_Write wr d p)), snd (dsw_Write wr d p))"
  have eq: "(snd (fst (dsw_Write wr d (b # p))), snd (dsw_Write wr d (b # p))) =
      unless_err (write_byte wr b d) ?rest"
    by (auto simp: dsw_Write_Cons split: prod.splits option.splits)
  have "emits d' (stuff_from (b = LF) (crlf_norm b p)) (?rest d')"
    if "write_byte wr b d = (None, d')" for d'
    using Cons.IH [of d'] write_byte_flags [OF that] by simp
  then show ?case
    unfolding eq stuff_crlf_Cons [of _ _ b p] by (intro emits_seq write_byte_emits) auto
qed

lemma dsw_Close_emits:
  "emits d ((if atLineStart d then [] else if lastByte d = CR then [LF] else CRLF) @ DOT # CRLF)
     (dsw_Close wr d)"
proof -
  have "emits d (if atLineStart d then [] else if lastByte d = CR then [LF] else CRLF)
    (if \<not> atLineStart d then put wr (if lastByte d = CR then [LF] else CRLF) d else (None, d))"
    using emits_put [of d "if lastByte d = CR then [LF] else CRLF"] emits_nothing by simp
  then show ?thesis
    unfolding dsw_Close_def by (intro emits_seq) (auto intro: emits_put)
qed

text \<open>What a whole body becomes: copied and closed without an error, it is \<open>wire_body\<close>.\<close>

lemma copy_close_content:
  assumes copy: "io_Copy wr ps (newDotStuffWriter w) = (None, d)"
    and close: "dsw_Close wr d = (None, d')"
  shows "content (dsw_w d') = content w @ wire_body (concat ps)"
proof -
  define p where "p = concat ps"
  define nd where "nd = newDotStuffWriter w"
  have nd: "atLineStart nd" "lastByte nd = NUL" "dsw_w nd = w"
    by (simp_all add: nd_def newDotStuffWriter_def)
  obtain n where wr: "dsw_Write wr nd p = ((n, None), d)"
    using copy by (auto simp: io_Copy_concat p_def nd_def split: prod.splits)
  have d: "content (dsw_w d) = content w @ stuff_from True (crlf_norm NUL p)"
    using dsw_Write_emits [of nd p] wr nd by (simp add: emits_def)
  have d': "content (dsw_w d') = content (dsw_w d) @
      (if atLineStart d then [] else if lastByte d = CR then [LF] else CRLF) @ DOT # CRLF"
    using dsw_Close_emits [of d] close by (simp add: emits_def)
  have "stuff_from True (delivered p) = stuff_from True (crlf_norm NUL p) @
      (if atLineStart d then [] else if lastByte d = CR then [LF] else CRLF)"
    using dsw_Write_None [OF wr] nd
    by (cases "p = []") (auto simp: delivered_def terminated_def stuff_from_append)
  with d d' show ?thesis by (simp add: wire_body_def stuffed_body_def concat_stuff_lines p_def)
qed

text \<open>And whatever happens, before the close no byte goes out that is not a part of the stuffed lines.\<close>

lemma copy_content_prefix:
  "prefix (content (dsw_w (snd (io_Copy wr ps (newDotStuffWriter w)))))
     (content w @ stuffed_body (concat ps))"
proof -
  define p where "p = concat ps"
  define nd where "nd = newDotStuffWriter w"
  have nd: "atLineStart nd" "lastByte nd = NUL" "dsw_w nd = w"
    by (simp_all add: nd_def newDotStuffWriter_def)
  have "prefix (content (dsw_w (snd (dsw_Write wr nd p))))
      (content w @ stuff_from True (crlf_norm NUL p))"
    using dsw_Write_emits [of nd p] nd by (auto simp: emits_def split: if_splits)
  moreover have "prefix (stuff_from True (crlf_norm NUL p)) (stuffed_body p)"
    by (auto simp: stuffed_body_def delivered_def terminated_def concat_stuff_lines stuff_from_append)
  ultimately show ?thesis
    by (auto simp: io_Copy_concat p_def nd_def split: prod.splits
        intro: prefix_order.trans same_prefix_prefix [THEN iffD2])
qed

end

text \<open>A sink that does not fail in the states \<open>ok\<close>, such as a connection whose peer reads.\<close>

locale reliable_sink = byte_sink +
  fixes ok :: "'a \<Rightarrow> bool"
  assumes wr_ok: "ok w \<Longrightarrow> \<exists>w'. wr w p = (None, w') \<and> ok w'"
begin

lemma put_ok: "ok (dsw_w d) \<Longrightarrow> \<exists>d'. put wr p d = (None, d') \<and> ok (dsw_w d')"
  using wr_ok [of "dsw_w d" p] by (auto simp: put_def)

lemma seq_ok:
  assumes "\<exists>d'. r = (None, d') \<and> ok (dsw_w d')"
    and "\<And>d'. ok (dsw_w d') \<Longrightarrow> \<exists>d''. f d' = (None, d'') \<and> ok (dsw_w d'')"
  shows "\<exists>d''. unless_err r f = (None, d'') \<and> ok (dsw_w d'')"
  using assms by auto

lemma write_byte_ok: "ok (dsw_w d) \<Longrightarrow> \<exists>d'. write_byte wr b d = (None, d') \<and> ok (dsw_w d')"
  unfolding write_byte_def by (auto intro!: seq_ok put_ok)

lemma dsw_Write_ok:
  "ok (dsw_w d) \<Longrightarrow> \<exists>d'. dsw_Write wr d p = ((length p, None), d') \<and> ok (dsw_w d')"
proof (induction p arbitrary: d)
  case (Cons b p)
  obtain d1 where d1: "write_byte wr b d = (None, d1)" "ok (dsw_w d1)"
    using write_byte_ok Cons.prems by blast
  obtain d2 where "dsw_Write wr d1 p = ((length p, None), d2)" "ok (dsw_w d2)"
    using Cons.IH [OF d1(2)] by blast
  with d1 show ?case by (simp add: dsw_Write_Cons)
qed simp

lemma copy_close_ok:
  assumes "ok w"
  shows "\<exists>d d'. io_Copy wr ps (newDotStuffWriter w) = (None, d) \<and> dsw_Close wr d = (None, d')
    \<and> ok (dsw_w d') \<and> content (dsw_w d') = content w @ wire_body (concat ps)"
proof -
  obtain d where d: "io_Copy wr ps (newDotStuffWriter w) = (None, d)" "ok (dsw_w d)"
    using dsw_Write_ok [of "newDotStuffWriter w" "concat ps"] assms
    by (auto simp: io_Copy_concat newDotStuffWriter_def)
  have "\<exists>d'. dsw_Close wr d = (None, d') \<and> ok (dsw_w d')"
    unfolding dsw_Close_def using d(2) by (intro seq_ok put_ok) (auto intro: put_ok)
  then obtain d' where d': "dsw_Close wr d = (None, d')" "ok (dsw_w d')" by blast
  show ?thesis using d d' copy_close_content [OF d(1) d'(1)] by blast
qed

end

section \<open>The connection's writer as the sink\<close>

interpretation conn_sink: reliable_sink bufw_Write stream healthy
proof unfold_locales
  fix w w' :: "bufw \<times> Net" and p e
  show "bufw_Write w p = (None, w') \<Longrightarrow> stream w' = stream w @ p"
    by (rule bufw_Write_None)
  show "bufw_Write w p = (Some e, w') \<Longrightarrow> prefix (stream w') (stream w @ p)"
    by (rule bufw_Write_Some)
  show "healthy w \<Longrightarrow> \<exists>w'. bufw_Write w p = (None, w') \<and> healthy w'"
    using healthy_bufw_Write by blast
qed

text \<open>
  What every write of a sink keeps to, the dot-stuffing writer keeps to: a relation between the sink
  before and after, such as what the connection under it may lose.
\<close>

locale steady_sink =
  fixes wr :: "'w io_writer" and rel :: "'w \<Rightarrow> 'w \<Rightarrow> bool"
  assumes rel_refl: "rel w w"
    and rel_trans: "rel a b \<Longrightarrow> rel b c \<Longrightarrow> rel a c"
    and rel_write: "rel w (snd (wr w p))"
begin

lemma put_rel: "rel (dsw_w d) (dsw_w (snd (put wr p d)))"
  by (simp add: put_def rel_write case_prod_beta)

lemma seq_rel:
  assumes "rel w (dsw_w (snd r))" and "\<And>d. rel (dsw_w d) (dsw_w (snd (f d)))"
  shows "rel w (dsw_w (snd (unless_err r f)))"
  using assms by (cases "(r, f)" rule: unless_err.cases) (auto intro: rel_trans)

lemma write_byte_rel: "rel (dsw_w d) (dsw_w (snd (write_byte wr b d)))"
  by (auto simp: write_byte_def intro!: seq_rel intro: put_rel rel_refl)

lemma dsw_Write_rel: "rel (dsw_w d) (dsw_w (snd (dsw_Write_from wr i p d)))"
proof (induction p arbitrary: i d)
  case (Cons b p)
  then show ?case
    using write_byte_rel [of d b] by (auto split: prod.splits option.splits intro: rel_trans)
qed (simp add: rel_refl)

lemma io_Copy_rel: "rel (dsw_w d) (dsw_w (snd (io_Copy wr ps d)))"
proof (induction ps arbitrary: d)
  case (Cons p ps)
  then show ?case
    using dsw_Write_rel [of d 0 p] by (auto simp: dsw_Write_def split: prod.splits option.splits intro: rel_trans)
qed (simp add: rel_refl)

lemma dsw_Close_rel: "rel (dsw_w d) (dsw_w (snd (dsw_Close wr d)))"
  by (auto simp: dsw_Close_def intro!: seq_rel intro: put_rel rel_refl)

end

interpretation conn_steady: steady_sink bufw_Write writes_to
  by unfold_locales (simp, rule writes_to_trans, assumption+, rule bufw_Write_steady)

section \<open>The framing of a body\<close>

definition is_line :: "bytes \<Rightarrow> bool" where
  "is_line l = (l \<noteq> [] \<and> last l = LF \<and> LF \<notin> set (butlast l))"

lemma lines_of_is_line: "is_line l \<Longrightarrow> lines_of (l @ t) = l # lines_of t"
proof (induction l)
  case (Cons b l)
  then show ?case by (cases l) (auto simp: is_line_def split: if_splits)
qed (simp add: is_line_def)

lemma lines_of_concat: "list_all is_line ls \<Longrightarrow> lines_of (concat ls @ t) = ls @ lines_of t"
  by (induction ls) (simp_all add: lines_of_is_line)

lemma lines_of_ended:
  "s = [] \<or> last s = LF \<Longrightarrow> list_all is_line (lines_of s)"
proof (induction s)
  case (Cons b s)
  then show ?case
    by (cases "lines_of s") (auto simp: is_line_def split: if_splits)
qed simp

lemma is_line_stuff: "is_line l \<Longrightarrow> is_line (stuff_line l)"
  by (cases l) (auto simp: is_line_def)

lemma delivered_ended: "delivered s = [] \<or> last (delivered s) = LF"
  by (auto simp: delivered_def terminated_def)

lemma stuff_line_neq_terminator: "stuff_line l \<noteq> DOT # CRLF"
  by (cases l) auto

lemma lines_of_stuffed_body: "lines_of (stuffed_body s) = map stuff_line (lines_of (delivered s))"
proof -
  have "list_all is_line (map stuff_line (lines_of (delivered s)))"
    using lines_of_ended [OF delivered_ended [of s]] is_line_stuff by (auto simp: list_all_iff)
  from lines_of_concat [OF this, of "[]"] show ?thesis by (simp add: stuffed_body_def)
qed

lemma lines_of_wire_body:
  "lines_of (wire_body s) = map stuff_line (lines_of (delivered s)) @ [DOT # CRLF]"
proof -
  have "list_all is_line (map stuff_line (lines_of (delivered s)))"
    using lines_of_ended [OF delivered_ended [of s]] is_line_stuff by (auto simp: list_all_iff)
  then show ?thesis by (simp add: wire_body_def stuffed_body_def lines_of_concat)
qed

text \<open>Only line feeds that had no carriage return cost an octet.\<close>

definition bare_LFs :: "bytes \<Rightarrow> nat" where
  "bare_LFs s = card {i. i < length s \<and> s ! i = LF \<and> (i = 0 \<or> s ! (i - 1) \<noteq> CR)}"

lemma bare_LFs_snoc:
  "bare_LFs (s @ [b]) = bare_LFs s + (if b = LF \<and> (s = [] \<or> last s \<noteq> CR) then 1 else 0)"
proof -
  let ?B = "\<lambda>s. {i. i < length s \<and> s ! i = LF \<and> (i = 0 \<or> s ! (i - 1) \<noteq> CR)}"
  let ?new = "if b = LF \<and> (s = [] \<or> last s \<noteq> CR) then {length s} else {}"
  have "?B (s @ [b]) = ?B s \<union> ?new"
    by (cases "s = []") (auto simp: nth_append last_conv_nth less_Suc_eq split: if_splits)
  moreover have "?B s \<inter> ?new = {}" by auto
  moreover have "finite (?B s)" by simp
  ultimately have "card (?B (s @ [b])) = card (?B s) + card ?new"
    by (simp add: card_Un_disjoint)
  then show ?thesis by (simp add: bare_LFs_def)
qed

lemma length_crlf_norm: "length (crlf_norm NUL s) = length s + bare_LFs s"
proof (induction s rule: rev_induct)
  case Nil
  show ?case by (simp add: bare_LFs_def)
next
  case (snoc b s)
  then show ?case by (auto simp: crlf_norm_append bare_LFs_snoc)
qed

end
