(* ===== verification/Sasl.thy ===== *)
theory Sasl
  imports GoErrors
begin

text \<open>
  SASL PLAIN: Go's \<^verbatim>\<open>base64.StdEncoding\<close> and \<^verbatim>\<open>decodeSASLPlain\<close> of
  \<^verbatim>\<open>pop3server/conn.go\<close>. The decoder ignores carriage returns and line feeds, wants complete
  groups of four with padding, and does not look at the unused bits of the last group. What the two
  ends of an \<^verbatim>\<open>AUTH PLAIN\<close> exchange rely on is the locale \<open>base64_codec\<close>.
\<close>

section \<open>Base64\<close>

text \<open>The alphabet \<^verbatim>\<open>A-Z a-z 0-9 + /\<close>, as a table from values to characters and back.\<close>

definition b64_char :: "nat \<Rightarrow> char" where
  "b64_char v = char_of
     (if v < 26 then 65 + v else if v < 52 then 71 + v else if v < 62 then v - 4
      else if v = 62 then 43 else 47)"

definition b64_val :: "char \<Rightarrow> nat option" where
  "b64_val c =
     (let b = byte c
      in if 65 \<le> b \<and> b \<le> 90 then Some (b - 65) else if 97 \<le> b \<and> b \<le> 122 then Some (b - 71)
         else if 48 \<le> b \<and> b \<le> 57 then Some (b + 4) else if b = 43 then Some 62
         else if b = 47 then Some 63 else None)"

fun EncodeToString :: "bytes \<Rightarrow> bytes" where
  "EncodeToString [] = []"
| "EncodeToString [x] =
     [b64_char (byte x div 4), b64_char (byte x mod 4 * 16), CHR ''='', CHR ''='']"
| "EncodeToString [x, y] =
     [b64_char (byte x div 4), b64_char (byte x mod 4 * 16 + byte y div 16),
      b64_char (byte y mod 16 * 4), CHR ''='']"
| "EncodeToString (x # y # z # s) =
     b64_char (byte x div 4) # b64_char (byte x mod 4 * 16 + byte y div 16)
     # b64_char (byte y mod 16 * 4 + byte z div 64) # b64_char (byte z mod 64)
     # EncodeToString s"

fun decode_quanta :: "bytes \<Rightarrow> bytes option" where
  "decode_quanta [] = Some []"
| "decode_quanta (a # b # c # d # s) =
     (case (b64_val a, b64_val b) of
        (Some va, Some vb) \<Rightarrow>
          (let x = char_of (va * 4 + vb div 16)
           in case b64_val c of
                None \<Rightarrow> (if c = CHR ''='' \<and> d = CHR ''='' \<and> s = [] then Some [x] else None)
              | Some vc \<Rightarrow>
                  (let y = char_of (vb mod 16 * 16 + vc div 4)
                   in case b64_val d of
                        None \<Rightarrow> (if d = CHR ''='' \<and> s = [] then Some [x, y] else None)
                      | Some vd \<Rightarrow>
                          map_option (\<lambda>r. x # y # char_of (vc mod 4 * 64 + vd) # r)
                            (decode_quanta s)))
      | _ \<Rightarrow> None)"
| "decode_quanta _ = None"

definition DecodeString :: "bytes \<Rightarrow> bytes option" where
  "DecodeString s = decode_quanta (filter (\<lambda>c. c \<noteq> CR \<and> c \<noteq> LF) s)"

section \<open>The PLAIN response\<close>

definition decodeSASLPlain :: "bytes \<Rightarrow> err + bytes \<times> bytes \<times> bytes" where
  "decodeSASLPlain encoded =
     (case DecodeString encoded of
        None \<Rightarrow> Inl (ErrPlain ''illegal base64 data'')
      | Some decoded \<Rightarrow>
          (case splitNull decoded of
             [p0, p1, p2] \<Rightarrow>
               (if containsCTL p0 \<or> containsCTL p1
                then Inl (ErrPlain ''control characters in SASL PLAIN identity'')
                else Inr (p0, p1, p2))
           | _ \<Rightarrow> Inl (ErrPlain ''invalid SASL PLAIN format'')))"

section \<open>Lemmas\<close>

lemma b64_val_char: "v < 64 \<Longrightarrow> b64_val (b64_char v) = Some v"
  by (auto simp: b64_val_def b64_char_def Let_def)

lemma b64_char_plain: "v < 64 \<Longrightarrow> plain_char (b64_char v)"
  by (auto simp: plain_char_def is_ascii_def b64_char_def ascii_space_bytes)

lemma b64_val_pad: "b64_val CHR ''='' = None"
  by (simp add: b64_val_def byte_def)

lemma byte_parts:
  "byte c div 4 < 64" "byte c mod 4 < 4" "byte c div 16 < 16" "byte c mod 16 < 16"
  "byte c div 64 < 4" "byte c mod 64 < 64"
  using byte_less_256 [of c] by (simp_all add: div_less_iff_less_mult)

lemma sextets:
  "byte x div 4 < 64" "byte x mod 4 * 16 + byte y div 16 < 64" "byte x mod 4 * 16 < 64"
  "byte y mod 16 * 4 + byte z div 64 < 64" "byte y mod 16 * 4 < 64" "byte z mod 64 < 64"
  using byte_parts [of x] byte_parts [of y] byte_parts [of z] by linarith+

lemma octets:
  "byte c div 16 div 16 = 0" "byte c div 16 mod 16 = byte c div 16"
  "byte c div 64 div 4 = 0" "byte c div 64 mod 4 = byte c div 64"
  using byte_parts [of c] by simp_all

lemma decode_quanta_Encode: "decode_quanta (EncodeToString s) = Some s"
  by (induction s rule: EncodeToString.induct)
    (simp_all add: b64_val_char sextets b64_val_pad octets)

lemma plain_pad: "plain_char CHR ''=''"
  by (simp add: plain_char_def is_ascii_def ascii_space_def byte_def)

lemma Encode_plain: "list_all plain_char (EncodeToString s)"
  by (induction s rule: EncodeToString.induct) (simp_all add: b64_char_plain sextets plain_pad)

lemma plain_char_not_newline: "plain_char c \<Longrightarrow> c \<noteq> CR \<and> c \<noteq> LF"
  by (auto simp: plain_char_def ascii_space_def)

lemma DecodeString_Encode: "DecodeString (EncodeToString s) = Some s"
proof -
  have "filter (\<lambda>c. c \<noteq> CR \<and> c \<noteq> LF) (EncodeToString s) = EncodeToString s"
    using Encode_plain [of s] plain_char_not_newline by (auto simp: list_all_iff intro!: filter_True)
  then show ?thesis by (simp add: DecodeString_def decode_quanta_Encode)
qed

lemma Encode_eq_Nil: "EncodeToString s = [] \<longleftrightarrow> s = []"
  by (cases s rule: EncodeToString.cases) auto

section \<open>The contract of the encoding\<close>

text \<open>
  Client and server agree on an encoding that decodes to what was encoded and whose text is one
  word of a command line. \<open>plain_payload\<close> is the frame the client builds.
\<close>

definition plain_payload :: "bytes \<Rightarrow> bytes \<Rightarrow> bytes \<Rightarrow> bytes" where
  "plain_payload identity username password = identity @ [NUL] @ username @ [NUL] @ password"

locale base64_codec =
  fixes enc :: "bytes \<Rightarrow> bytes" and decd :: "bytes \<Rightarrow> bytes option"
  assumes decd_enc: "decd (enc s) = Some s"
    and enc_plain: "list_all plain_char (enc s)"
    and enc_Nil: "enc s = [] \<longleftrightarrow> s = []"
begin

lemma enc_word: "s \<noteq> [] \<Longrightarrow> plain_word (enc s)"
  using enc_plain [of s] enc_Nil [of s] by (simp add: plain_word_def)

text \<open>The encoded response is the second word of the command line, whatever it encodes.\<close>

lemma auth_line_fields:
  "Fields (''PLAIN '' @ enc (plain_payload i u p)) = [''PLAIN'', enc (plain_payload i u p)]"
proof -
  have "plain_word ''PLAIN''"
    by (simp add: plain_word_def plain_char_def is_ascii_def ascii_space_def byte_def)
  moreover have "plain_word (enc (plain_payload i u p))"
    by (rule enc_word) (simp add: plain_payload_def)
  ultimately show ?thesis
    using Fields_word_blank [of "''PLAIN''" "CHR '' ''"] by (simp add: Fields_word)
qed

text \<open>And it splits into the three parts.\<close>

lemma payload_parts:
  assumes "NUL \<notin> set i" "NUL \<notin> set u" "NUL \<notin> set p"
  shows "map_option splitNull (decd (enc (plain_payload i u p))) = Some [i, u, p]"
  using assms by (simp add: decd_enc plain_payload_def splitNull_def splitNull_from_split
      splitNull_from_last)

end

interpretation std64: base64_codec EncodeToString DecodeString
  by unfold_locales (simp_all add: DecodeString_Encode Encode_plain Encode_eq_Nil)

lemma containsCTL_no_NUL: "\<not> containsCTL s \<Longrightarrow> NUL \<notin> set s"
  by (auto simp: containsCTL_iff byte_def)

lemma decodeSASLPlain_payload:
  assumes "\<not> containsCTL i" "\<not> containsCTL u" "NUL \<notin> set p"
  shows "decodeSASLPlain (EncodeToString (plain_payload i u p)) = Inr (i, u, p)"
  using std64.payload_parts [of i u p] assms
  by (auto simp: decodeSASLPlain_def containsCTL_no_NUL)

lemma splitNull_from_no_NUL:
  "NUL \<notin> set cur \<Longrightarrow> x \<in> set (splitNull_from cur s) \<Longrightarrow> NUL \<notin> set x"
proof (induction s arbitrary: cur)
  case (Cons b s)
  then show ?case using Cons.IH [of "[]"] Cons.IH [of "cur @ [b]"] by (auto split: if_splits)
qed simp

text \<open>What the server accepts: identities without control characters, a password without NUL.\<close>

lemma decodeSASLPlain_Inr:
  assumes "decodeSASLPlain s = Inr (i, u, p)"
  shows "\<not> containsCTL i \<and> \<not> containsCTL u \<and> NUL \<notin> set p"
proof -
  obtain d where "splitNull d = [i, u, p]" "\<not> containsCTL i" "\<not> containsCTL u"
    using assms by (auto simp: decodeSASLPlain_def split: option.splits list.splits if_splits)
  then show ?thesis using splitNull_from_no_NUL [of "[]" p d] by (simp add: splitNull_def)
qed

end
