(* ===== verification/Session.thy ===== *)
theory Session
  imports DotStuff Sasl
begin

text \<open>
  The types of \<^verbatim>\<open>pop3/pop3.go\<close>, \<^verbatim>\<open>pop3server/session.go\<close>,
  \<^verbatim>\<open>pop3server/body.go\<close> and \<^verbatim>\<open>pop3server/options.go\<close>.

  A \<open>Session\<close> is an interface, so it is a record of functions on the implementation's own
  state \<open>'s\<close>: a method takes the state and returns its outcome and the new state. An outcome is
  a value, an error, or a panic. \<open>Login\<close> and \<open>AuthenticatePlain\<close> may take the connection
  over: \<open>LHijack k\<close> is a method that calls \<^verbatim>\<open>Conn.Hijack\<close> and goes on as \<open>k\<close>
  says with what it returned (the error, or the connection with the bytes already buffered).
  The three extension interfaces are optional components, as the type assertions of the code make
  them.

  Every method but \<open>Close\<close> gets a context. What it does with it shows in the time it takes:
  \<open>s_Takes k left s\<close> nanoseconds for the call \<open>k\<close> when \<open>left\<close> nanoseconds are left until the context is
  done (\<open>None\<close>: it never is). The documentation asks a method to give up when its context is done
  (\<open>honours\<close>); the library does not enforce it.
\<close>

section \<open>Wire types\<close>

record MessageInfo =
  Info_Num :: int
  Info_Size :: int

record MessageUidl =
  Uidl_Num :: int
  Uidl_UniqueID :: bytes

record Capability =
  Cap_Name :: bytes
  Cap_Params :: "bytes list"

record LanguageInfo =
  Lang_Tag :: bytes
  Lang_Description :: bytes

section \<open>Sessions\<close>

datatype 'a outcome = Ret 'a | Fail err | Panic

text \<open>
  The body a \<open>Retr\<close> or \<open>Top\<close> returns: the chunks it yields and how it ends.
  \<open>SizedBody\<close> adds the octet count to announce.
\<close>

record body =
  body_chunks :: "bytes list"
  body_ends :: body_end
  body_octets :: "int option"

definition SizedBody :: "body \<Rightarrow> int \<Rightarrow> body" where
  "SizedBody b octets = b\<lparr>body_octets := Some octets\<rparr>"

datatype 's login_step =
    LDone "unit outcome" 's
  | LHijack "err + Net \<times> bytes \<Rightarrow> unit outcome \<times> 's"

datatype call =
    CLogin bytes bytes | CAuthenticatePlain bytes bytes bytes
  | CStat | CList int | CUidl int | CRetr int | CTop int int | CDele int | CRset | CNoop | CQuit
  | CSetLanguage bytes | CListLanguages | CEnableUTF8 | CUnknownCommand bytes

record 's SessionSASL =
  AuthenticateMechanisms :: "'s \<Rightarrow> bytes list"
  AuthenticatePlain :: "bytes \<Rightarrow> bytes \<Rightarrow> bytes \<Rightarrow> 's \<Rightarrow> 's login_step"

record 's SessionLang =
  SetLanguage :: "bytes \<Rightarrow> 's \<Rightarrow> bytes outcome \<times> 's"
  ListLanguages :: "'s \<Rightarrow> LanguageInfo list outcome \<times> 's"

record 's SessionUTF8 =
  EnableUTF8 :: "'s \<Rightarrow> unit outcome \<times> 's"

record 's Session =
  s_Close :: "'s \<Rightarrow> unit outcome \<times> 's"
  s_Login :: "bytes \<Rightarrow> bytes \<Rightarrow> 's \<Rightarrow> 's login_step"
  s_Stat :: "'s \<Rightarrow> (int \<times> int) outcome \<times> 's"
  s_List :: "int \<Rightarrow> 's \<Rightarrow> MessageInfo list outcome \<times> 's"
  s_Uidl :: "int \<Rightarrow> 's \<Rightarrow> MessageUidl list outcome \<times> 's"
  s_Retr :: "int \<Rightarrow> 's \<Rightarrow> body option outcome \<times> 's"   \<comment> \<open>\<^verbatim>\<open>None\<close>: a nil body\<close>
  s_Top :: "int \<Rightarrow> int \<Rightarrow> 's \<Rightarrow> body option outcome \<times> 's"
  s_Dele :: "int \<Rightarrow> 's \<Rightarrow> unit outcome \<times> 's"
  s_Rset :: "'s \<Rightarrow> unit outcome \<times> 's"
  s_Noop :: "'s \<Rightarrow> unit outcome \<times> 's"
  s_Quit :: "'s \<Rightarrow> int outcome \<times> 's"
  s_SASL :: "'s SessionSASL option"
  s_Lang :: "'s SessionLang option"
  s_UTF8 :: "'s SessionUTF8 option"
  s_Takes :: "call \<Rightarrow> int option \<Rightarrow> 's \<Rightarrow> nat"

section \<open>Options\<close>

text \<open>
  An \<open>UnknownCommandHandler\<close> gets the connection itself. What it does with it is the sequence of the
  methods it calls: \<^verbatim>\<open>OK\<close>, \<^verbatim>\<open>Err\<close>, \<^verbatim>\<open>IsTLS\<close>, \<^verbatim>\<open>SetTLS\<close>, \<^verbatim>\<open>Hijack\<close>, each
  with how it goes on after what they return, until it returns its two results and leaves the session
  in a state, or panics.
\<close>

datatype 's handler =
    HReturn bool bool 's                        \<comment> \<open>handled, close, and the session\<close>
  | HPanic 's
  | HOK bytes "'s handler"
  | HErr bytes "'s handler"
  | HIsTLS "bool \<Rightarrow> 's handler"
  | HSetTLS bool "'s handler"
  | HHijack "err + Net \<times> bytes \<Rightarrow> 's handler"

text \<open>
  The options the library acts on. Durations are nanoseconds. \<open>TLSConfig\<close> and the observer
  hooks are kept as whether they are set; the logger, whose calls nothing depends on, is left out.
\<close>

record 's Options =
  TLSConfig :: bool
  Caps :: "Capability list"
  SuppressedCaps :: "bytes list"
  IdleTimeout :: int
  AuthIdleTimeout :: int
  AbsoluteSessionTimeout :: int
  CommandTimeout :: int
  WriteTimeout :: int
  InsecureAuth :: bool
  MaxLineLength :: int
  MaxErrors :: int
  AuthFailuresExemptFromMaxErrors :: bool
  ErrorDelay :: int
  MaxErrorDelay :: int
  Greeting :: bytes
  RejectMessage :: bytes
  StrictSessionErrors :: bool
  UnknownCommandHandler :: "(bytes \<Rightarrow> bytes list \<Rightarrow> 's \<Rightarrow> 's handler) option"
  OnCommand :: bool
  OnPanic :: bool
  OnTimeout :: bool

abbreviation second :: int where "second \<equiv> 1000000000"

definition defaultMaxErrorDelay :: int where
  "defaultMaxErrorDelay = 30 * second"

definition defaultWriteTimeout :: int where
  "defaultWriteTimeout = 60 * second"

definition TimeoutIdle :: bytes where
  "TimeoutIdle = ''idle''"

definition TimeoutAbsolute :: bytes where
  "TimeoutAbsolute = ''absolute''"

definition defaults :: "'s Options \<Rightarrow> 's Options" where
  "defaults o0 =
     (let o1 = (if IdleTimeout o0 = 0 then o0\<lparr>IdleTimeout := 600 * second\<rparr> else o0);
          o2 = (if MaxLineLength o1 = 0 then o1\<lparr>MaxLineLength := 1024\<rparr> else o1);
          o3 = (if MaxErrors o2 = 0 then o2\<lparr>MaxErrors := 10\<rparr> else o2);
          o4 = (if MaxErrorDelay o3 = 0 then o3\<lparr>MaxErrorDelay := defaultMaxErrorDelay\<rparr> else o3);
          o5 = (if WriteTimeout o4 = 0 then o4\<lparr>WriteTimeout := defaultWriteTimeout\<rparr> else o4);
          o6 = (if Greeting o5 = [] then o5\<lparr>Greeting := ''POP3 server ready''\<rparr> else o5);
          o7 = (if RejectMessage o6 = [] then o6\<lparr>RejectMessage := ''Service not available''\<rparr> else o6)
      in o7)"

end
