(* ===== verification/Conn.thy ===== *)
theory Conn
  imports Session
begin

text \<open>
  \<^verbatim>\<open>pop3server/conn.go\<close>: the connection, its helpers, the command handlers and the
  dispatcher. A method of \<^verbatim>\<open>*Conn\<close> is a function from the connection to the connection.

  Some fields are not in the struct. \<open>cmdCtx\<close> is when the context of the command is done that the
  code passes to its handlers as their first argument. \<open>trace\<close> records, in order, the calls the library makes on
  the session, the body and the hooks, so that the theorems can speak of them. \<open>panicking\<close>
  and \<open>blocked\<close> are set when a call on the session panics and when a read waits for ever; what
  the code would have done next is then not done.
\<close>

section \<open>The connection\<close>

datatype connState = stateAuthorization | stateTransaction

datatype event =
    EvCall call bool                  \<comment> \<open>a call and whether it returned without an error\<close>
  | EvBodyClose
  | EvTLS bool                        \<comment> \<open>a TLS handshake and whether it succeeded\<close>
  | EvSetTLS bool                     \<comment> \<open>a handler has overridden the TLS flag\<close>
  | EvOnCommand bytes int "err option"
  | EvOnTimeout bytes
  | EvOnPanic
  | EvSessionClose
  | EvNetClose

record 's Conn =
  netConn :: Net
  reader :: bytes
  writer :: bufw
  session :: 's
  state :: connState
  username :: bytes
  rawArg :: bytes
  cmdCtx :: "int option"
  errorCount :: int
  isTLS :: bool
  startTime :: int
  hijacked :: bool
  closePending :: bool
  lastErr :: "err option"
  panicking :: bool
  blocked :: bool
  trace :: "event list"

text \<open>
  What a connection refers to: the resolved options, Go's Unicode tables, the session's methods, and
  when \<^verbatim>\<open>Close\<close> cancels the server's context, if it does.
\<close>

record 's Server =
  opts :: "'s Options"
  uni :: unicode
  meths :: "'s Session"
  closes :: "int option"

section \<open>Writing, flushing, deadlines\<close>

text \<open>The writer of a connection, bounded by \<open>WriteTimeout\<close> if that is positive.\<close>

definition newWriter :: "'s Server \<Rightarrow> bufw" where
  "newWriter srv =
     (if WriteTimeout (opts srv) > 0 then NewWriter (WriteTimeout (opts srv)) else NewWriter 0)"

definition write_string :: "bytes \<Rightarrow> 's Conn \<Rightarrow> 's Conn" where
  "write_string s c =
     (let (_, w, n) = bufw_Write (writer c, netConn c) s in c\<lparr>writer := w, netConn := n\<rparr>)"

definition flush :: "'s Conn \<Rightarrow> err option \<times> 's Conn" where
  "flush c = (let (e, w, n) = Flush (writer c, netConn c) in (e, c\<lparr>writer := w, netConn := n\<rparr>))"

definition SetReadDeadline :: "int option \<Rightarrow> 's Conn \<Rightarrow> 's Conn" where
  "SetReadDeadline d c = c\<lparr>netConn := (netConn c)\<lparr>rdeadline := d\<rparr>\<rparr>"

definition SetDeadline :: "int option \<Rightarrow> 's Conn \<Rightarrow> 's Conn" where
  "SetDeadline d c = c\<lparr>netConn := (netConn c)\<lparr>rdeadline := d, wdeadline := d\<rparr>\<rparr>"

definition add_event :: "event \<Rightarrow> 's Conn \<Rightarrow> 's Conn" where
  "add_event e c = c\<lparr>trace := trace c @ [e]\<rparr>"

definition panic :: "'s Conn \<Rightarrow> 's Conn" where
  "panic c = c\<lparr>panicking := True\<rparr>"

definition ok :: "bytes \<Rightarrow> 's Conn \<Rightarrow> 's Conn" where
  "ok msg c =
     (if msg = [] then write_string (''+OK'' @ CRLF) c
      else write_string CRLF (write_string (sanitizeResponse msg) (write_string ''+OK '' c)))"

definition err_resp :: "bytes \<Rightarrow> 's Conn \<Rightarrow> 's Conn" where
  "err_resp msg c =
     (if msg = [] then write_string (''-ERR'' @ CRLF) c
      else write_string CRLF (write_string (sanitizeResponse msg) (write_string ''-ERR '' c)))"

section \<open>Errors\<close>

text \<open>
  The back-off. \<open>errorCount * ErrorDelay\<close> is a product of 64-bit integers and wraps; a timer
  with a delay that is not positive fires at once. The sleep ends early when the connection's context
  does: \<open>AbsoluteSessionTimeout\<close> after the start, or when the server is closed.
\<close>

fun earlier :: "int option \<Rightarrow> int option \<Rightarrow> int option" where
  "earlier None e = e"
| "earlier (Some d) None = Some d"
| "earlier (Some d) (Some e) = Some (min d e)"

definition conn_ctx :: "'s Server \<Rightarrow> int \<Rightarrow> int option" where
  "conn_ctx srv start =
     earlier (if AbsoluteSessionTimeout (opts srv) > 0 then Some (start + AbsoluteSessionTimeout (opts srv)) else None)
       (closes srv)"

definition errorDelay :: "'s Server \<Rightarrow> 's Conn \<Rightarrow> int" where
  "errorDelay srv c =
     (let delay = ErrorDelay (opts srv)
      in if delay \<le> 0 then 0
         else let d = wrap64 (errorCount c * delay); limit = MaxErrorDelay (opts srv)
              in if limit > 0 \<and> d > limit then limit else d)"

definition applyErrorDelay :: "'s Server \<Rightarrow> 's Conn \<Rightarrow> 's Conn" where
  "applyErrorDelay srv c =
     (let t0 = now (netConn c);
          t1 = t0 + max 0 (errorDelay srv c);
          t = (case conn_ctx srv (startTime c) of None \<Rightarrow> t1 | Some d \<Rightarrow> max t0 (min t1 d))
      in c\<lparr>netConn := (netConn c)\<lparr>now := t\<rparr>\<rparr>)"

definition clientError :: "'s Server \<Rightarrow> bytes \<Rightarrow> 's Conn \<Rightarrow> 's Conn" where
  "clientError srv msg c =
     (let c = c\<lparr>errorCount := errorCount c + 1\<rparr>;
          c = (if lastErr c = None
               then c\<lparr>lastErr := Some (ErrPop3 \<lparr>Error_Code = [], Error_Message = msg, Error_Close = False\<rparr>)\<rparr>
               else c)
      in err_resp msg (applyErrorDelay srv c))"

definition sessionError :: "'s Server \<Rightarrow> err \<Rightarrow> 's Conn \<Rightarrow> 's Conn" where
  "sessionError srv e c =
     (let c = c\<lparr>lastErr := Some e\<rparr>
      in case errors_As e of
           Some perr \<Rightarrow>
             (let c = err_resp (wireMessage (uni srv) perr) c
              in if Error_Close perr then c\<lparr>closePending := True\<rparr> else c)
         | None \<Rightarrow>
             (if errors_Is e ErrCloseConnection then (err_resp ''internal error'' c)\<lparr>closePending := True\<rparr>
              else if StrictSessionErrors (opts srv) then err_resp ''internal error'' c
              else err_resp (err_text (uni srv) e) c))"

definition maxErrorsExceeded :: "'s Server \<Rightarrow> 's Conn \<Rightarrow> bool" where
  "maxErrorsExceeded srv c = (MaxErrors (opts srv) > 0 \<and> errorCount c \<ge> MaxErrors (opts srv))"

section \<open>Reading lines\<close>

text \<open>The result of a read: nothing when it blocks for ever, an error, or the line.\<close>

type_synonym read_line = "(err + bytes) option"

function readLine_loop :: "int \<Rightarrow> bytes \<Rightarrow> bytes \<Rightarrow> Net \<Rightarrow> read_line \<times> bytes \<times> Net" where
  "readLine_loop maxLen line buf n =
     (case ReadLine buf n of
        (LErr e, buf', n') \<Rightarrow> (Some (Inl e), buf', n')
      | (LBlock, buf', n') \<Rightarrow> (None, buf', n')
      | (LLine chunk isPrefix, buf', n') \<Rightarrow>
          (let line = line @ chunk
           in if \<not> isPrefix
              then (Some (if int (length line) > maxLen then Inl ErrLineTooLong else Inr line), buf', n')
              else if int (length line) > maxLen then (Some (Inl ErrLineTooLong), buf', n')
              else readLine_loop maxLen line buf' n'))"
  by pat_completeness auto
termination
  by (relation "measure (\<lambda>(maxLen, line, buf, n). length buf + net_size n)")
    (auto intro: ReadLine_size(2) [OF sym])

declare readLine_loop.simps [simp del]

definition readLine :: "'s Server \<Rightarrow> 's Conn \<Rightarrow> read_line \<times> 's Conn" where
  "readLine srv c =
     (let (r, buf, n) = readLine_loop (MaxLineLength (opts srv)) [] (reader c) (netConn c)
      in (r, c\<lparr>reader := buf, netConn := n\<rparr>))"

text \<open>The next read deadline; \<open>None\<close> is the zero time, no deadline.\<close>

definition nextReadDeadline :: "'s Server \<Rightarrow> 's Conn \<Rightarrow> int option" where
  "nextReadDeadline srv c =
     (let o1 = opts srv;
          idle = (if state c = stateAuthorization \<and> AuthIdleTimeout o1 > 0
                  then AuthIdleTimeout o1 else IdleTimeout o1);
          deadline = (if idle > 0 then Some (now (netConn c) + idle) else None)
      in if AbsoluteSessionTimeout o1 > 0 then
           (let absDeadline = startTime c + AbsoluteSessionTimeout o1
            in case deadline of
                 None \<Rightarrow> Some absDeadline
               | Some d \<Rightarrow> if absDeadline < d then Some absDeadline else Some d)
         else deadline)"

definition arm_deadline :: "'s Server \<Rightarrow> 's Conn \<Rightarrow> 's Conn" where
  "arm_deadline srv c =
     (case nextReadDeadline srv c of None \<Rightarrow> c | Some d \<Rightarrow> SetReadDeadline (Some d) c)"

definition authAllowed :: "'s Server \<Rightarrow> 's Conn \<Rightarrow> bool" where
  "authAllowed srv c = (InsecureAuth (opts srv) \<or> isTLS c)"

section \<open>Message numbers\<close>

definition parseMsgNum :: "bytes list \<Rightarrow> bytes + int" where
  "parseMsgNum args =
     (case args of
        [] \<Rightarrow> Inl ''message number required''
      | a # _ \<Rightarrow>
          (case parseInt a of
             Inl _ \<Rightarrow> Inl ''invalid message number''
           | Inr n \<Rightarrow> if n < 1 then Inl ''invalid message number'' else Inr n))"

definition parseOptionalMsgNum :: "bytes list \<Rightarrow> bytes + int" where
  "parseOptionalMsgNum args = (if length args = 0 then Inr 0 else parseMsgNum args)"

section \<open>Calls on the session\<close>

fun returned :: "'a outcome \<Rightarrow> bool" where
  "returned (Ret _) = True"
| "returned _ = False"

text \<open>The time a call takes, with what is left of the command's context.\<close>

definition elapse :: "'s Server \<Rightarrow> call \<Rightarrow> 's Conn \<Rightarrow> 's Conn" where
  "elapse srv k c =
     (let t = now (netConn c); left = (case cmdCtx c of None \<Rightarrow> None | Some d \<Rightarrow> Some (d - t))
      in c\<lparr>netConn := (netConn c)\<lparr>now := t + int (s_Takes (meths srv) k left (session c))\<rparr>\<rparr>)"

definition invoke ::
    "'s Server \<Rightarrow> call \<Rightarrow> ('s \<Rightarrow> 'a outcome \<times> 's) \<Rightarrow> 's Conn \<Rightarrow> 'a outcome \<times> 's Conn" where
  "invoke srv k m c =
     (let (r, s) = m (session c)
      in (r, add_event (EvCall k (returned r)) ((elapse srv k c)\<lparr>session := s\<rparr>)))"

definition Hijack :: "'s Conn \<Rightarrow> (err + Net \<times> bytes) \<times> 's Conn" where
  "Hijack c =
     (if state c \<noteq> stateAuthorization
      then (Inl (ErrPlain ''pop3server: Hijack only valid during authentication''), c)
      else if hijacked c then (Inl (ErrPlain ''pop3server: connection already hijacked''), c)
      else case flush c of
             (Some e, c) \<Rightarrow> (Inl e, c)
           | (None, c) \<Rightarrow> (Inr (netConn c, reader c), c\<lparr>hijacked := True\<rparr>))"

text \<open>A login method, which may hijack the connection before it returns.\<close>

definition invoke_login ::
    "'s Server \<Rightarrow> call \<Rightarrow> ('s \<Rightarrow> 's login_step) \<Rightarrow> 's Conn \<Rightarrow> unit outcome \<times> 's Conn" where
  "invoke_login srv k m c =
     (let (r, s, c) =
        (case m (session c) of
           LDone r s \<Rightarrow> (r, s, elapse srv k c)
         | LHijack f \<Rightarrow> (let (h, c) = Hijack (elapse srv k c); (r, s) = f h in (r, s, c)))
      in (r, add_event (EvCall k (returned r)) (c\<lparr>session := s\<rparr>)))"

end
