(* ===== verification/Handlers.thy ===== *)
theory Handlers
  imports Conn
begin

text \<open>
  The command handlers and the dispatcher of \<^verbatim>\<open>pop3server/conn.go\<close>, one definition per
  method, and the response every handler sends when the session answers it.
\<close>

section \<open>Capabilities\<close>

definition capSuppressed :: "'s Server \<Rightarrow> bytes \<Rightarrow> bool" where
  "capSuppressed srv name = list_ex (\<lambda>s. EqualFold (uni srv) s name) (SuppressedCaps (opts srv))"

definition writeCap :: "'s Server \<Rightarrow> bytes \<Rightarrow> bytes list \<Rightarrow> 's Conn \<Rightarrow> 's Conn" where
  "writeCap srv name params c =
     (if capSuppressed srv name then c
      else let c = write_string name c;
               c = (if length params > 0
                    then write_string (Join params '' '') (write_string '' '' c) else c)
           in write_string CRLF c)"

definition handleCapa :: "'s Server \<Rightarrow> 's Conn \<Rightarrow> 's Conn" where
  "handleCapa srv c =
     (let allowed = (InsecureAuth (opts srv) \<or> isTLS c);
          c = write_string (''+OK Capability list follows'' @ CRLF) c;
          c = writeCap srv ''TOP'' [] c;
          c = writeCap srv ''UIDL'' [] c;
          c = (if allowed then writeCap srv ''USER'' [] c else c);
          c = writeCap srv ''RESP-CODES'' [] c;
          c = writeCap srv ''PIPELINING'' [] c;
          c = (if TLSConfig (opts srv) \<and> \<not> isTLS c then writeCap srv ''STLS'' [] c else c);
          c = (if allowed then
                 (case s_SASL (meths srv) of
                    None \<Rightarrow> c
                  | Some sasl \<Rightarrow>
                      (let mechs = AuthenticateMechanisms sasl (session c)
                       in if length mechs > 0 then writeCap srv ''SASL'' mechs c else c))
               else c);
          c = (if s_Lang (meths srv) \<noteq> None then writeCap srv ''LANG'' [] c else c);
          c = (if s_UTF8 (meths srv) \<noteq> None then writeCap srv ''UTF8'' [] c else c);
          c = fold (\<lambda>cap. writeCap srv (Cap_Name cap) (Cap_Params cap)) (Caps (opts srv)) c
      in write_string (DOT # CRLF) c)"

section \<open>Authentication\<close>

definition handleUser :: "'s Server \<Rightarrow> bytes list \<Rightarrow> 's Conn \<Rightarrow> 's Conn" where
  "handleUser srv args c =
     (if \<not> authAllowed srv c then clientError srv ''Authentication requires TLS. Use STLS first'' c
      else case args of
             [] \<Rightarrow> clientError srv ''Syntax: USER <username>'' c
           | a # _ \<Rightarrow>
               (if containsCTL a then clientError srv ''Invalid username'' c
                else ok [] (c\<lparr>username := a\<rparr>)))"

text \<open>
  What \<^verbatim>\<open>handlePass\<close> and \<^verbatim>\<open>handleAuth\<close> both do with the result of the
  authenticating method.
\<close>

definition after_login :: "'s Server \<Rightarrow> unit outcome \<times> 's Conn \<Rightarrow> 's Conn" where
  "after_login srv rc =
     (case rc of
        (Panic, c) \<Rightarrow> panic c
      | (Fail e, c) \<Rightarrow>
          (let c = (if \<not> AuthFailuresExemptFromMaxErrors (opts srv)
                    then c\<lparr>errorCount := errorCount c + 1\<rparr> else c)
           in sessionError srv e (applyErrorDelay srv c))
      | (Ret _, c) \<Rightarrow>
          (if hijacked c then c
           else ok ''Authentication successful'' (c\<lparr>state := stateTransaction\<rparr>)))"

definition handlePass :: "'s Server \<Rightarrow> 's Conn \<Rightarrow> 's Conn" where
  "handlePass srv c =
     (if \<not> authAllowed srv c then clientError srv ''Authentication requires TLS. Use STLS first'' c
      else if username c = [] then clientError srv ''Send USER first'' c
      else if rawArg c = [] then clientError srv ''Syntax: PASS <password>'' c
      else after_login srv
             (invoke_login srv (CLogin (username c) (rawArg c)) (s_Login (meths srv) (username c) (rawArg c)) c))"

definition mechanismAdvertised :: "'s Server \<Rightarrow> 's SessionSASL \<Rightarrow> bytes \<Rightarrow> 's Conn \<Rightarrow> bool" where
  "mechanismAdvertised srv sasl mech c =
     list_ex (\<lambda>m. EqualFold (uni srv) m mech) (AuthenticateMechanisms sasl (session c))"

text \<open>The part of \<^verbatim>\<open>handleAuth\<close> behind the initial response, however it arrived.\<close>

definition auth_response :: "'s Server \<Rightarrow> 's SessionSASL \<Rightarrow> bytes \<Rightarrow> 's Conn \<Rightarrow> 's Conn" where
  "auth_response srv sasl encoded c =
     (if encoded = ''*'' then err_resp ''Authentication aborted'' c
      else case decodeSASLPlain encoded of
             Inl parseErr \<Rightarrow>
               clientError srv ''Invalid SASL PLAIN response'' (c\<lparr>lastErr := Some parseErr\<rparr>)
           | Inr (ident, user, pass) \<Rightarrow>
               after_login srv
                 (invoke_login srv (CAuthenticatePlain ident user pass)
                    (AuthenticatePlain sasl ident user pass) c))"

definition handleAuth :: "'s Server \<Rightarrow> bytes list \<Rightarrow> 's Conn \<Rightarrow> 's Conn" where
  "handleAuth srv args c =
     (if \<not> authAllowed srv c then clientError srv ''Authentication requires TLS. Use STLS first'' c
      else case s_SASL (meths srv) of
             None \<Rightarrow> clientError srv ''SASL not supported'' c
           | Some sasl \<Rightarrow>
               (case args of
                  [] \<Rightarrow>
                    (let mechs = AuthenticateMechanisms sasl (session c);
                         c = write_string (''+OK'' @ CRLF) c;
                         c = fold (\<lambda>m c. write_string CRLF (write_string m c)) mechs c
                     in write_string (DOT # CRLF) c)
                | a # rest \<Rightarrow>
                    (if ToUpper (uni srv) a \<noteq> ''PLAIN'' \<or> \<not> mechanismAdvertised srv sasl ''PLAIN'' c
                     then clientError srv ''Unsupported SASL mechanism'' c
                     else case rest of
                            encoded # _ \<Rightarrow> auth_response srv sasl encoded c
                          | [] \<Rightarrow>
                              (let c = snd (flush (write_string (''+ '' @ CRLF) c));
                                   c = arm_deadline srv c;
                                   (r, c) = readLine srv c;
                                   c = SetReadDeadline None c
                               in case r of
                                    None \<Rightarrow> c\<lparr>blocked := True\<rparr>
                                  | Some (Inl readErr) \<Rightarrow> c\<lparr>closePending := True\<rparr>
                                  | Some (Inr line) \<Rightarrow> auth_response srv sasl (TrimSpace line) c))))"

section \<open>The TLS upgrade\<close>

text \<open>
  The handshake: whether it succeeds before the read deadline and the end of the per-command context
  (that of the connection's, or \<^verbatim>\<open>CommandTimeout\<close> after the dispatch of the command), and what
  the connection is then.
\<close>

definition HandshakeContext :: "int option \<Rightarrow> Net \<Rightarrow> bool \<times> Net" where
  "HandshakeContext ctx n =
     (case tls_peer n of
        None \<Rightarrow> (False, n)
      | Some (dt, evs) \<Rightarrow>
          (let deadline = earlier (rdeadline n) ctx
           in if (case deadline of None \<Rightarrow> False | Some d \<Rightarrow> d < now n + int dt)
              then (False, n\<lparr>now := max (now n) (the deadline)\<rparr>)
              else (True, n\<lparr>now := now n + int dt, net := evs, tls_peer := None\<rparr>)))"

definition handleSTLS :: "'s Server \<Rightarrow> 's Conn \<Rightarrow> 's Conn" where
  "handleSTLS srv c =
     (if isTLS c then clientError srv ''Already using TLS'' c
      else if \<not> TLSConfig (opts srv) then clientError srv ''TLS not available'' c
      else if state c \<noteq> stateAuthorization
      then clientError srv ''STLS only allowed before authentication'' c
      else if length (reader c) > 0
      then (clientError srv ''Pipelining after STLS not permitted'' c)\<lparr>closePending := True\<rparr>
      else
        (let ctx = cmdCtx c;
             c = snd (flush (ok ''Begin TLS negotiation'' c));
             c = (case nextReadDeadline srv c of None \<Rightarrow> c | Some d \<Rightarrow> SetDeadline (Some d) c);
             (success, n) = HandshakeContext ctx (netConn c);
             c = add_event (EvTLS success) (SetDeadline None (c\<lparr>netConn := n\<rparr>))
         in if \<not> success then c\<lparr>closePending := True\<rparr>
            else c\<lparr>reader := [], writer := newWriter srv, isTLS := True, username := []\<rparr>))"

section \<open>The transaction commands\<close>

definition handleStat :: "'s Server \<Rightarrow> 's Conn \<Rightarrow> 's Conn" where
  "handleStat srv c =
     (case invoke srv CStat (s_Stat (meths srv)) c of
        (Panic, c) \<Rightarrow> panic c
      | (Fail e, c) \<Rightarrow> sessionError srv e c
      | (Ret (count, sz), c) \<Rightarrow>
          write_string (''+OK '' @ fmt_d count @ '' '' @ fmt_d sz @ CRLF) c)"

definition no_such_message :: err where
  "no_such_message =
     ErrPop3 \<lparr>Error_Code = [], Error_Message = ''No such message'', Error_Close = False\<rparr>"

definition handleList :: "'s Server \<Rightarrow> bytes list \<Rightarrow> 's Conn \<Rightarrow> 's Conn" where
  "handleList srv args c =
     (case parseOptionalMsgNum args of
        Inl e \<Rightarrow> clientError srv e c
      | Inr msg \<Rightarrow>
          (case invoke srv (CList msg) (s_List (meths srv) msg) c of
             (Panic, c) \<Rightarrow> panic c
           | (Fail e, c) \<Rightarrow> sessionError srv e c
           | (Ret items, c) \<Rightarrow>
               (if msg > 0 then
                  (case items of
                     [item] \<Rightarrow>
                       write_string
                         (''+OK '' @ fmt_d (Info_Num item) @ '' '' @ fmt_d (Info_Size item) @ CRLF) c
                   | _ \<Rightarrow> sessionError srv no_such_message c)
                else
                  (let c = write_string (''+OK '' @ fmt_d (int (length items)) @ '' messages'' @ CRLF) c;
                       c = fold (\<lambda>item. write_string
                             (fmt_d (Info_Num item) @ '' '' @ fmt_d (Info_Size item) @ CRLF)) items c
                   in write_string (DOT # CRLF) c))))"

definition handleUidl :: "'s Server \<Rightarrow> bytes list \<Rightarrow> 's Conn \<Rightarrow> 's Conn" where
  "handleUidl srv args c =
     (case parseOptionalMsgNum args of
        Inl e \<Rightarrow> clientError srv e c
      | Inr msg \<Rightarrow>
          (case invoke srv (CUidl msg) (s_Uidl (meths srv) msg) c of
             (Panic, c) \<Rightarrow> panic c
           | (Fail e, c) \<Rightarrow> sessionError srv e c
           | (Ret items, c) \<Rightarrow>
               (if msg > 0 then
                  (case items of
                     [item] \<Rightarrow>
                       write_string
                         (''+OK '' @ fmt_d (Uidl_Num item) @ '' '' @
                          sanitizeResponse (Uidl_UniqueID item) @ CRLF) c
                   | _ \<Rightarrow> sessionError srv no_such_message c)
                else
                  (let c = write_string (''+OK '' @ fmt_d (int (length items)) @ '' messages'' @ CRLF) c;
                       c = fold (\<lambda>item. write_string
                             (fmt_d (Uidl_Num item) @ '' '' @
                              sanitizeResponse (Uidl_UniqueID item) @ CRLF)) items c
                   in write_string (DOT # CRLF) c))))"

text \<open>
  The end of \<^verbatim>\<open>handleRetr\<close> and \<^verbatim>\<open>handleTop\<close>: the body is copied through the
  dot-stuffing writer; a copy that fails leaves the response open and drops the connection. The
  deferred \<^verbatim>\<open>body.Close()\<close> runs in every case.
\<close>

definition copy_body :: "body \<Rightarrow> 's Conn \<Rightarrow> 's Conn" where
  "copy_body b c =
     add_event EvBodyClose
       (case io_Copy bufw_Write (body_chunks b) (newDotStuffWriter (writer c, netConn c)) of
          (Some e, d) \<Rightarrow>
            c\<lparr>writer := fst (dsw_w d), netConn := snd (dsw_w d), lastErr := Some e, closePending := True\<rparr>
        | (None, d) \<Rightarrow>
            (case body_ends b of
               BodyErr e \<Rightarrow>
                 c\<lparr>writer := fst (dsw_w d), netConn := snd (dsw_w d), lastErr := Some e, closePending := True\<rparr>
             | BodyPanic \<Rightarrow> panic (c\<lparr>writer := fst (dsw_w d), netConn := snd (dsw_w d)\<rparr>)
             | BodyEOF \<Rightarrow>
                 (let (_, d) = dsw_Close bufw_Write d
                  in c\<lparr>writer := fst (dsw_w d), netConn := snd (dsw_w d)\<rparr>)))"

definition handleRetr :: "'s Server \<Rightarrow> bytes list \<Rightarrow> 's Conn \<Rightarrow> 's Conn" where
  "handleRetr srv args c =
     (case parseMsgNum args of
        Inl e \<Rightarrow> clientError srv e c
      | Inr msg \<Rightarrow>
          (case invoke srv (CRetr msg) (s_Retr (meths srv) msg) c of
             (Panic, c) \<Rightarrow> panic c
           | (Fail e, c) \<Rightarrow> sessionError srv e c
           | (Ret None, c) \<Rightarrow> panic c
           | (Ret (Some b), c) \<Rightarrow>
               (let c = (case body_octets b of
                           Some octets \<Rightarrow> ok (fmt_d octets @ '' octets'') c
                         | None \<Rightarrow> ok ''Message follows'' c);
                    c = snd (flush c)
                in copy_body b c)))"

definition handleTop :: "'s Server \<Rightarrow> bytes list \<Rightarrow> 's Conn \<Rightarrow> 's Conn" where
  "handleTop srv args c =
     (case args of
        a # l # _ \<Rightarrow>
          (case parseMsgNum [a] of
             Inl e \<Rightarrow> clientError srv e c
           | Inr msg \<Rightarrow>
               (case parseInt l of
                  Inl _ \<Rightarrow> clientError srv ''Invalid number of lines'' c
                | Inr lines \<Rightarrow>
                    (if lines < 0 then clientError srv ''Invalid number of lines'' c
                     else case invoke srv (CTop msg lines) (s_Top (meths srv) msg lines) c of
                            (Panic, c) \<Rightarrow> panic c
                          | (Fail e, c) \<Rightarrow> sessionError srv e c
                          | (Ret None, c) \<Rightarrow> panic c
                          | (Ret (Some b), c) \<Rightarrow>
                              copy_body b (snd (flush (ok ''Top of message follows'' c))))))
      | _ \<Rightarrow> clientError srv ''Syntax: TOP <msg> <lines>'' c)"

definition handleDele :: "'s Server \<Rightarrow> bytes list \<Rightarrow> 's Conn \<Rightarrow> 's Conn" where
  "handleDele srv args c =
     (case parseMsgNum args of
        Inl e \<Rightarrow> clientError srv e c
      | Inr msg \<Rightarrow>
          (case invoke srv (CDele msg) (s_Dele (meths srv) msg) c of
             (Panic, c) \<Rightarrow> panic c
           | (Fail e, c) \<Rightarrow> sessionError srv e c
           | (Ret _, c) \<Rightarrow> ok ''Message deleted'' c))"

definition handleRset :: "'s Server \<Rightarrow> 's Conn \<Rightarrow> 's Conn" where
  "handleRset srv c =
     (case invoke srv CRset (s_Rset (meths srv)) c of
        (Panic, c) \<Rightarrow> panic c
      | (Fail e, c) \<Rightarrow> sessionError srv e c
      | (Ret _, c) \<Rightarrow> ok ''Maildrop has been reset'' c)"

definition handleNoop :: "'s Server \<Rightarrow> 's Conn \<Rightarrow> 's Conn" where
  "handleNoop srv c =
     (case invoke srv CNoop (s_Noop (meths srv)) c of
        (Panic, c) \<Rightarrow> panic c
      | (Fail e, c) \<Rightarrow> sessionError srv e c
      | (Ret _, c) \<Rightarrow> ok [] c)"

definition handleQuit :: "'s Server \<Rightarrow> 's Conn \<Rightarrow> 's Conn" where
  "handleQuit srv c =
     (case invoke srv CQuit (s_Quit (meths srv)) c of
        (Panic, c) \<Rightarrow> panic c
      | (Fail e, c) \<Rightarrow> sessionError srv e c
      | (Ret expunged, c) \<Rightarrow>
          (if expunged > 0 then write_string (''+OK '' @ fmt_d expunged @ '' messages expunged'' @ CRLF) c
           else ok ''Goodbye'' c))"

section \<open>LANG and UTF8\<close>

definition handleLang :: "'s Server \<Rightarrow> bytes list \<Rightarrow> 's Conn \<Rightarrow> 's Conn" where
  "handleLang srv args c =
     (case s_Lang (meths srv) of
        None \<Rightarrow> clientError srv ''LANG not supported'' c
      | Some lang \<Rightarrow>
          (case args of
             [] \<Rightarrow>
               (case invoke srv CListLanguages (ListLanguages lang) c of
                  (Panic, c) \<Rightarrow> panic c
                | (Fail e, c) \<Rightarrow> sessionError srv e c
                | (Ret langs, c) \<Rightarrow>
                    (let c = write_string (''+OK Language list follows'' @ CRLF) c;
                         c = fold (\<lambda>l. write_string
                               (sanitizeResponse (Lang_Tag l) @ '' '' @
                                sanitizeResponse (Lang_Description l) @ CRLF)) langs c
                     in write_string (DOT # CRLF) c))
           | a # _ \<Rightarrow>
               (case invoke srv (CSetLanguage a) (SetLanguage lang a) c of
                  (Panic, c) \<Rightarrow> panic c
                | (Fail e, c) \<Rightarrow> sessionError srv e c
                | (Ret tag, c) \<Rightarrow>
                    write_string (''+OK Language set to '' @ sanitizeResponse tag @ CRLF) c)))"

definition handleUTF8 :: "'s Server \<Rightarrow> 's Conn \<Rightarrow> 's Conn" where
  "handleUTF8 srv c =
     (case s_UTF8 (meths srv) of
        None \<Rightarrow> clientError srv ''UTF8 not supported'' c
      | Some utf8 \<Rightarrow>
          (case invoke srv CEnableUTF8 (EnableUTF8 utf8) c of
             (Panic, c) \<Rightarrow> panic c
           | (Fail e, c) \<Rightarrow> sessionError srv e c
           | (Ret _, c) \<Rightarrow> ok ''UTF8 mode enabled'' c))"

section \<open>Dispatch\<close>

text \<open>
  What a handler for unknown commands can call on the connection, and the run of one. That it has overridden
  the TLS flag is recorded.
\<close>

definition conn_OK :: "bytes \<Rightarrow> 's Conn \<Rightarrow> 's Conn" where
  "conn_OK msg c = ok msg c"

definition conn_Err :: "bytes \<Rightarrow> 's Conn \<Rightarrow> 's Conn" where
  "conn_Err msg c = err_resp msg c"

definition IsTLS :: "'s Conn \<Rightarrow> bool" where
  "IsTLS c = isTLS c"

definition SetTLS :: "bool \<Rightarrow> 's Conn \<Rightarrow> 's Conn" where
  "SetTLS v c = add_event (EvSetTLS v) (c\<lparr>isTLS := v\<rparr>)"

primrec run_handler :: "'s handler \<Rightarrow> 's Conn \<Rightarrow> (bool \<times> bool) outcome \<times> 's Conn" where
  "run_handler (HReturn handled closeConn s) c = (Ret (handled, closeConn), c\<lparr>session := s\<rparr>)"
| "run_handler (HPanic s) c = (Panic, c\<lparr>session := s\<rparr>)"
| "run_handler (HOK msg k) c = run_handler k (conn_OK msg c)"
| "run_handler (HErr msg k) c = run_handler k (conn_Err msg c)"
| "run_handler (HIsTLS k) c = run_handler (k (IsTLS c)) c"
| "run_handler (HSetTLS v k) c = run_handler k (SetTLS v c)"
| "run_handler (HHijack k) c = run_handler (k (fst (Hijack c))) (snd (Hijack c))"

definition unknown_command :: "'s Server \<Rightarrow> bytes \<Rightarrow> 's Conn \<Rightarrow> 's Conn" where
  "unknown_command srv cmd c =
     clientError srv (''Unknown command: '' @ cmd)
       (c\<lparr>lastErr := Some (ErrPlain (''unknown command: '' @ cmd))\<rparr>)"

definition dispatchUnknown :: "'s Server \<Rightarrow> bytes \<Rightarrow> bytes list \<Rightarrow> 's Conn \<Rightarrow> bool \<times> 's Conn" where
  "dispatchUnknown srv cmd args c =
     (case UnknownCommandHandler (opts srv) of
        None \<Rightarrow> (False, unknown_command srv cmd c)
      | Some h \<Rightarrow>
          (let (r, c) = run_handler (h cmd args (session c)) (elapse srv (CUnknownCommand cmd) c);
               c = add_event (EvCall (CUnknownCommand cmd) (returned r)) c
           in case r of
                Ret (handled, closeConn) \<Rightarrow>
                  (if handled then (closeConn, c) else (False, unknown_command srv cmd c))
              | _ \<Rightarrow> (False, panic c)))"

text \<open>
  The dispatchers return the connection and whether it is to be closed. The states of the Go enum
  are the two constructors, so the \<^verbatim>\<open>default\<close> branch of \<^verbatim>\<open>dispatch\<close> has no
  counterpart.
\<close>

definition transaction_verbs :: "bytes list" where
  "transaction_verbs = [''STAT'', ''LIST'', ''UIDL'', ''RETR'', ''TOP'', ''DELE'', ''RSET'', ''NOOP'']"

definition dispatchAuth :: "'s Server \<Rightarrow> bytes \<Rightarrow> bytes list \<Rightarrow> 's Conn \<Rightarrow> bool \<times> 's Conn" where
  "dispatchAuth srv cmd args c =
     (if cmd = ''CAPA'' then (False, handleCapa srv c)
      else if cmd = ''USER'' then (False, handleUser srv args c)
      else if cmd = ''PASS'' then (False, handlePass srv c)
      else if cmd = ''AUTH'' then (False, handleAuth srv args c)
      else if cmd = ''STLS'' then (False, handleSTLS srv c)
      else if cmd = ''QUIT'' then (True, ok ''Goodbye'' c)
      else if cmd = ''UTF8'' then (False, handleUTF8 srv c)
      else if cmd = ''LANG'' then (False, handleLang srv args c)
      else if cmd \<in> set transaction_verbs then (False, clientError srv ''Not authenticated'' c)
      else if cmd = ''LAST'' then (False, err_resp ''LAST is obsolete (RFC 1939)'' c)
      else dispatchUnknown srv cmd args c)"

definition dispatchTransaction :: "'s Server \<Rightarrow> bytes \<Rightarrow> bytes list \<Rightarrow> 's Conn \<Rightarrow> bool \<times> 's Conn" where
  "dispatchTransaction srv cmd args c =
     (if cmd = ''CAPA'' then (False, handleCapa srv c)
      else if cmd = ''STAT'' then (False, handleStat srv c)
      else if cmd = ''LIST'' then (False, handleList srv args c)
      else if cmd = ''UIDL'' then (False, handleUidl srv args c)
      else if cmd = ''RETR'' then (False, handleRetr srv args c)
      else if cmd = ''TOP'' then (False, handleTop srv args c)
      else if cmd = ''DELE'' then (False, handleDele srv args c)
      else if cmd = ''RSET'' then (False, handleRset srv c)
      else if cmd = ''NOOP'' then (False, handleNoop srv c)
      else if cmd = ''QUIT'' then (True, handleQuit srv c)
      else if cmd = ''LANG'' then (False, handleLang srv args c)
      else if cmd = ''UTF8'' then (False, handleUTF8 srv c)
      else if cmd = ''LAST'' then (False, err_resp ''LAST is obsolete (RFC 1939)'' c)
      else dispatchUnknown srv cmd args c)"

definition dispatch :: "'s Server \<Rightarrow> bytes \<Rightarrow> bytes list \<Rightarrow> 's Conn \<Rightarrow> bool \<times> 's Conn" where
  "dispatch srv cmd args c =
     (case state c of
        stateAuthorization \<Rightarrow> dispatchAuth srv cmd args c
      | stateTransaction \<Rightarrow> dispatchTransaction srv cmd args c)"

end
