(* ===== verification/Client.thy ===== *)
theory Client
  imports Handlers
begin

text \<open>
  \<^verbatim>\<open>pop3client\<close>: the connection to an upstream server and its commands. An operation takes
  the client and returns its reply with the client as it leaves it; a reply is a value, an error, or
  a read that waits for ever. The dialer is not modelled: its result is an argument of \<open>Dial\<close>.

  A context is the time of its deadline and the time at which it is cancelled. A cancellation reaches
  the connection through the goroutine that \<^verbatim>\<open>guard\<close> starts. The client of the model carries the
  times at which the guards now armed will fire (\<open>guards\<close>), and a guard is taken to act at its time:
  a read or write that is then waiting fails (\<open>limited\<close>), and the deadlines of the connection are in
  the past until somebody sets them again (\<open>settle\<close>). Among the events of one instant the guard comes
  last.
\<close>

section \<open>The client\<close>

record Ctx =
  ctx_Deadline :: "int option"
  ctx_Cancel :: "int option"

text \<open>When the \<^verbatim>\<open>Done\<close> channel is closed.\<close>

definition ctx_Done :: "Ctx \<Rightarrow> int option" where
  "ctx_Done ctx = earlier (ctx_Deadline ctx) (ctx_Cancel ctx)"

record Client =
  c_conn :: Net
  c_reader :: bytes
  c_writer :: bufw
  maxLine :: int
  maxRespLines :: int
  greeting :: bytes
  guards :: "int list"

text \<open>\<open>ClientOptions\<close>: \<open>co_TLS\<close> says whether a TLS configuration is set.\<close>

record ClientOptions =
  co_TLS :: bool
  co_STARTTLS :: bool
  co_MaxLineLength :: int
  co_MaxResponseLines :: int

record XClientParam =
  XC_Name :: bytes
  XC_Value :: bytes

datatype client_err = ProtocolError bytes | NetErr err | ClientErr bytes

datatype 'a reply = Done 'a | Failed client_err | Blocks

type_synonym 'a client_op = "Client \<Rightarrow> 'a reply \<times> Client"

text \<open>The early return on an error that every operation repeats.\<close>

definition and_then :: "'a client_op \<Rightarrow> ('a \<Rightarrow> 'b client_op) \<Rightarrow> 'b client_op" where
  "and_then m f c =
     (case m c of
        (Done a, c) \<Rightarrow> f a c
      | (Failed e, c) \<Rightarrow> (Failed e, c)
      | (Blocks, c) \<Rightarrow> (Blocks, c))"

definition return :: "'a \<Rightarrow> 'a client_op" where
  "return a c = (Done a, c)"

definition fail :: "client_err \<Rightarrow> 'a client_op" where
  "fail e c = (Failed e, c)"

definition isOK :: "bytes \<Rightarrow> bool" where
  "isOK line = HasPrefix line ''+OK''"

section \<open>Deadlines and cancellation\<close>

definition set_read_deadline :: "Ctx \<Rightarrow> Client \<Rightarrow> Client" where
  "set_read_deadline ctx c =
     (case ctx_Deadline ctx of None \<Rightarrow> c | Some d \<Rightarrow> c\<lparr>c_conn := (c_conn c)\<lparr>rdeadline := Some d\<rparr>\<rparr>)"

definition set_write_deadline :: "Ctx \<Rightarrow> Client \<Rightarrow> Client" where
  "set_write_deadline ctx c =
     (case ctx_Deadline ctx of None \<Rightarrow> c | Some d \<Rightarrow> c\<lparr>c_conn := (c_conn c)\<lparr>wdeadline := Some d\<rparr>\<rparr>)"

text \<open>\<^verbatim>\<open>Client.SetDeadline\<close>; \<open>None\<close> is the zero time.\<close>

definition client_SetDeadline :: "int option \<Rightarrow> Client \<Rightarrow> Client" where
  "client_SetDeadline d c = c\<lparr>c_conn := (c_conn c)\<lparr>rdeadline := d, wdeadline := d\<rparr>\<rparr>"

text \<open>\<^verbatim>\<open>Client.Close\<close>. What has been read ahead is kept.\<close>

definition client_Close :: "Client \<Rightarrow> Client" where
  "client_Close c = c\<lparr>c_conn := conn_Close (c_conn c)\<rparr>"

definition soonest :: "int list \<Rightarrow> int option" where
  "soonest ts = foldr (\<lambda>t. earlier (Some t)) ts None"

text \<open>The connection as a read or write now finds it: a guard that fires cuts it short.\<close>

definition limited :: "Client \<Rightarrow> Net" where
  "limited c =
     (c_conn c)\<lparr>rdeadline := earlier (rdeadline (c_conn c)) (soonest (guards c)),
               wdeadline := earlier (wdeadline (c_conn c)) (soonest (guards c))\<rparr>"

text \<open>
  The guards whose time is over, or has come while an operation \<open>failed\<close>, fire: they move the
  deadlines into the past, one second before their time, and are done.
\<close>

definition due :: "bool \<Rightarrow> int \<Rightarrow> int \<Rightarrow> bool" where
  "due failed t g = (g < t \<or> failed \<and> g = t)"

definition settle :: "bool \<Rightarrow> Client \<Rightarrow> Client" where
  "settle failed c =
     (let n = c_conn c; fired = filter (due failed (now n)) (guards c)
      in if fired = [] then c
         else (client_SetDeadline (Some (foldr max fired (hd fired) - second)) c)
                \<lparr>guards := filter (Not \<circ> due failed (now n)) (guards c)\<rparr>)"

text \<open>The client after a read or write on \<open>limited c\<close> has left the connection \<open>n\<close>.\<close>

definition resume :: "bool \<Rightarrow> Client \<Rightarrow> Net \<Rightarrow> Client" where
  "resume failed c n =
     settle failed
       (c\<lparr>c_conn := n\<lparr>rdeadline := rdeadline (c_conn c), wdeadline := wdeadline (c_conn c)\<rparr>\<rparr>)"

text \<open>
  \<^verbatim>\<open>guard\<close>: armed before an operation, stopped after it. A context that is never done starts
  no goroutine; one that is done already fires at once.
\<close>

definition arm :: "Ctx \<Rightarrow> Client \<Rightarrow> Client" where
  "arm ctx c =
     (case ctx_Done ctx of None \<Rightarrow> c | Some t \<Rightarrow> settle False (c\<lparr>guards := t # guards c\<rparr>))"

definition stop :: "Ctx \<Rightarrow> Client \<Rightarrow> Client" where
  "stop ctx c = (case ctx_Done ctx of None \<Rightarrow> c | Some t \<Rightarrow> c\<lparr>guards := remove1 t (guards c)\<rparr>)"

definition guard :: "Ctx \<Rightarrow> 'a client_op \<Rightarrow> 'a client_op" where
  "guard ctx op c = (let (r, c) = op (arm ctx c) in (r, stop ctx c))"

section \<open>Lines\<close>

definition writeCmd :: "Ctx \<Rightarrow> bytes \<Rightarrow> unit client_op" where
  "writeCmd ctx line c0 =
     (let c = set_write_deadline ctx (settle False c0)
      in case bufw_Write (c_writer c, limited c) (line @ CRLF) of
           (Some e, w, n) \<Rightarrow> (Failed (NetErr e), resume True (c\<lparr>c_writer := w\<rparr>) n)
         | (None, w, n) \<Rightarrow>
             (case Flush (w, n) of
                (Some e, w, n) \<Rightarrow> (Failed (NetErr e), resume True (c\<lparr>c_writer := w\<rparr>) n)
              | (None, w, n) \<Rightarrow> (Done (), resume False (c\<lparr>c_writer := w\<rparr>) n)))"

fun is_done :: "'a reply \<Rightarrow> bool" where
  "is_done (Done a) = True"
| "is_done _ = False"

function client_readLine_loop :: "int \<Rightarrow> bytes \<Rightarrow> bytes \<Rightarrow> Net \<Rightarrow> bytes reply \<times> bytes \<times> Net" where
  "client_readLine_loop maxLen line buf n =
     (case ReadLine buf n of
        (LErr e, buf', n') \<Rightarrow> (Failed (NetErr e), buf', n')
      | (LBlock, buf', n') \<Rightarrow> (Blocks, buf', n')
      | (LLine chunk isPrefix, buf', n') \<Rightarrow>
          (let line = line @ chunk
           in if int (length line) > maxLen
              then (Failed (ClientErr ''pop3client: response line too long''), buf', n')
              else if \<not> isPrefix then (Done line, buf', n')
              else client_readLine_loop maxLen line buf' n'))"
  by pat_completeness auto
termination
  by (relation "measure (\<lambda>(maxLen, line, buf, n). length buf + net_size n)")
    (auto intro: ReadLine_size(2) [OF sym])

declare client_readLine_loop.simps [simp del]

definition client_readLine :: "Ctx \<Rightarrow> bytes client_op" where
  "client_readLine ctx c0 =
     (let c = set_read_deadline ctx (settle False c0);
          (r, buf, n) = client_readLine_loop (maxLine c) [] (c_reader c) (limited c)
      in (r, resume (\<not> is_done r) (c\<lparr>c_reader := buf\<rparr>) n))"

definition client_size :: "Client \<Rightarrow> nat" where
  "client_size c = length (c_reader c) + net_size (c_conn c)"

lemma client_readLine_loop_size:
  "client_readLine_loop m line buf n = (r, buf', n') \<Longrightarrow>
     length buf' + net_size n' \<le> length buf + net_size n
     \<and> ((\<exists>l. r = Done l) \<longrightarrow> length buf' + net_size n' < length buf + net_size n)"
proof (induction m line buf n rule: client_readLine_loop.induct)
  case (1 m line buf n)
  obtain q b k where rl: "ReadLine buf n = (q, b, k)" by (metis prod_cases3)
  note sz = ReadLine_size(1) [OF rl] ReadLine_size(2) [OF rl]
  show ?case
  proof (cases q)
    case (LLine chunk pre)
    show ?thesis
    proof (cases "pre \<and> int (length (line @ chunk)) \<le> m")
      case True
      then have "client_readLine_loop m (line @ chunk) b k = (r, buf', n')"
        using "1.prems" rl LLine by (simp add: client_readLine_loop.simps [of m line buf n])
      with "1.IH" [OF rl [symmetric] LLine refl refl] True
      show ?thesis using sz LLine by fastforce
    next
      case False
      then show ?thesis
        using "1.prems" rl LLine sz(2) [OF LLine]
        by (auto simp: client_readLine_loop.simps [of m line buf n] Let_def split: if_splits)
    qed
  qed (use "1.prems" rl sz in \<open>auto simp: client_readLine_loop.simps [of m line buf n]\<close>)
qed

text \<open>Deadlines and guards do not touch anything else.\<close>

lemma settle_frame [simp]:
  "c_reader (settle f c) = c_reader c" "c_writer (settle f c) = c_writer c" "maxLine (settle f c) = maxLine c"
  "maxRespLines (settle f c) = maxRespLines c" "greeting (settle f c) = greeting c"
  "net (c_conn (settle f c)) = net (c_conn c)" "now (c_conn (settle f c)) = now (c_conn c)"
  "tls_peer (c_conn (settle f c)) = tls_peer (c_conn c)" "wbudget (c_conn (settle f c)) = wbudget (c_conn c)" "wslow (c_conn (settle f c)) = wslow (c_conn c)"
  by (simp_all add: settle_def client_SetDeadline_def Let_def)

lemma set_deadline_frame [simp]:
  "c_reader (set_read_deadline ctx c) = c_reader c" "c_writer (set_read_deadline ctx c) = c_writer c"
  "maxLine (set_read_deadline ctx c) = maxLine c" "maxRespLines (set_read_deadline ctx c) = maxRespLines c"
  "guards (set_read_deadline ctx c) = guards c" "net (c_conn (set_read_deadline ctx c)) = net (c_conn c)"
  "now (c_conn (set_read_deadline ctx c)) = now (c_conn c)"
  "wdeadline (c_conn (set_read_deadline ctx c)) = wdeadline (c_conn c)"
  "wbudget (c_conn (set_read_deadline ctx c)) = wbudget (c_conn c)" "wslow (c_conn (set_read_deadline ctx c)) = wslow (c_conn c)"
  "c_reader (set_write_deadline ctx c) = c_reader c" "c_writer (set_write_deadline ctx c) = c_writer c"
  "maxLine (set_write_deadline ctx c) = maxLine c" "maxRespLines (set_write_deadline ctx c) = maxRespLines c"
  "guards (set_write_deadline ctx c) = guards c" "net (c_conn (set_write_deadline ctx c)) = net (c_conn c)"
  "now (c_conn (set_write_deadline ctx c)) = now (c_conn c)"
  "rdeadline (c_conn (set_write_deadline ctx c)) = rdeadline (c_conn c)"
  "wbudget (c_conn (set_write_deadline ctx c)) = wbudget (c_conn c)" "wslow (c_conn (set_write_deadline ctx c)) = wslow (c_conn c)"
  by (simp_all add: set_read_deadline_def set_write_deadline_def split: option.split)

lemma limited_frame [simp]:
  "net (limited c) = net (c_conn c)" "now (limited c) = now (c_conn c)"
  "wbudget (limited c) = wbudget (c_conn c)" "wslow (limited c) = wslow (c_conn c)" "net_size (limited c) = net_size (c_conn c)"
  by (simp_all add: limited_def net_size_def)

lemma resume_frame [simp]:
  "c_reader (resume f c n) = c_reader c" "c_writer (resume f c n) = c_writer c" "maxLine (resume f c n) = maxLine c"
  "maxRespLines (resume f c n) = maxRespLines c" "net (c_conn (resume f c n)) = net n"
  "now (c_conn (resume f c n)) = now n" "wbudget (c_conn (resume f c n)) = wbudget n" "wslow (c_conn (resume f c n)) = wslow n"
  by (simp_all add: resume_def)

lemma stop_frame [simp]:
  "c_reader (stop ctx c) = c_reader c" "c_conn (stop ctx c) = c_conn c" "c_writer (stop ctx c) = c_writer c"
  "maxLine (stop ctx c) = maxLine c" "maxRespLines (stop ctx c) = maxRespLines c"
  by (simp_all add: stop_def split: option.split)

lemma client_size_stop [simp]: "client_size (stop ctx c) = client_size c"
  by (simp add: client_size_def)

lemma client_readLine_size:
  assumes "client_readLine ctx c = (Done l, c')"
  shows "client_size c' < client_size c"
proof -
  obtain r b n where "client_readLine_loop (maxLine c) [] (c_reader c)
      (limited (set_read_deadline ctx (settle False c))) = (r, b, n)"
    by (metis prod_cases3)
  from this client_readLine_loop_size [OF this] assms show ?thesis
    by (auto simp: client_readLine_def client_size_def net_size_def)
qed

definition unstuffLine :: "bytes \<Rightarrow> bytes" where
  "unstuffLine line = (if HasPrefix line [DOT] then drop 1 line else line)"

function readMultiLine_loop :: "Ctx \<Rightarrow> bytes list \<Rightarrow> Client \<Rightarrow> bytes list reply \<times> Client" where
  "readMultiLine_loop ctx lines c =
     (case client_readLine ctx c of
        (Failed e, c') \<Rightarrow> (Failed e, c')
      | (Blocks, c') \<Rightarrow> (Blocks, c')
      | (Done line, c') \<Rightarrow>
          (if line = [DOT] then (Done lines, c')
           else
             (let lines = lines @ [unstuffLine line]
              in if int (length lines) > maxRespLines c'
                 then (Failed (ClientErr ''pop3client: multi-line response too long''), c')
                 else readMultiLine_loop ctx lines c')))"
  by pat_completeness auto
termination
  by (relation "measure (\<lambda>(ctx, lines, c). client_size c)") (auto intro: client_readLine_size [OF sym])

declare readMultiLine_loop.simps [simp del]

definition readMultiLine :: "Ctx \<Rightarrow> bytes list client_op" where
  "readMultiLine ctx c = readMultiLine_loop ctx [] c"

section \<open>Commands\<close>

text \<open>A command line and the status line that answers it, which every operation begins with.\<close>

definition exchange :: "Ctx \<Rightarrow> bytes \<Rightarrow> bytes client_op" where
  "exchange ctx line = and_then (writeCmd ctx line) (\<lambda>_. client_readLine ctx)"

definition Cmd :: "Ctx \<Rightarrow> bytes \<Rightarrow> bytes client_op" where
  "Cmd ctx line = guard ctx (exchange ctx line)"

definition cmdExpectOK :: "Ctx \<Rightarrow> bytes \<Rightarrow> unit client_op" where
  "cmdExpectOK ctx line =
     and_then (Cmd ctx line) (\<lambda>status. if \<not> isOK status then fail (ProtocolError status) else return ())"

definition Capa :: "Ctx \<Rightarrow> bytes list client_op" where
  "Capa ctx =
     guard ctx
       (and_then (exchange ctx ''CAPA'')
         (\<lambda>status. if \<not> isOK status then fail (ProtocolError status) else readMultiLine ctx))"

definition XClient :: "Ctx \<Rightarrow> XClientParam list \<Rightarrow> unit client_op" where
  "XClient ctx params =
     guard ctx
       (and_then
         (exchange ctx
           (''XCLIENT'' @ concat (map (\<lambda>p. '' '' @ XC_Name p @ ''='' @ XC_Value p) params)))
         (\<lambda>status. if \<not> isOK status then fail (ProtocolError status) else return ()))"

definition AuthPlain :: "Ctx \<Rightarrow> bytes \<Rightarrow> bytes \<Rightarrow> bytes \<Rightarrow> unit client_op" where
  "AuthPlain ctx ident user pw =
     guard ctx
       (and_then (exchange ctx (''AUTH PLAIN '' @ EncodeToString (ident @ NUL # user @ NUL # pw)))
         (\<lambda>status. if \<not> isOK status then fail (ProtocolError status) else return ()))"

definition User :: "Ctx \<Rightarrow> bytes \<Rightarrow> bytes \<Rightarrow> unit client_op" where
  "User ctx user pw =
     and_then (cmdExpectOK ctx (''USER '' @ user)) (\<lambda>_. cmdExpectOK ctx (''PASS '' @ pw))"

definition client_Quit :: "Ctx \<Rightarrow> unit client_op" where
  "client_Quit ctx = cmdExpectOK ctx ''QUIT''"

definition startTLS :: "Ctx \<Rightarrow> unit client_op" where
  "startTLS ctx =
     and_then (cmdExpectOK ctx ''STLS'')
       (\<lambda>_ c. let c = set_write_deadline ctx (set_read_deadline ctx (settle False c));
                  (success, n) = HandshakeContext (ctx_Done ctx) (limited c);
                  c = resume (\<not> success) c n
              in if \<not> success then (Failed (ClientErr ''tls: handshake failed''), c)
                 else (Done (), c\<lparr>c_reader := [], c_writer := NewWriter 0\<rparr>))"

text \<open>
  \<^verbatim>\<open>Dial\<close>, from the connection the dialer returned. On every failure the code closes the
  connection, so no client is left.
\<close>

definition newClient :: "ClientOptions \<Rightarrow> Net \<Rightarrow> Client" where
  "newClient o1 n =
     \<lparr>c_conn = n, c_reader = [], c_writer = NewWriter 0,
      maxLine = (if co_MaxLineLength o1 \<le> 0 then 4096 else co_MaxLineLength o1),
      maxRespLines = (if co_MaxResponseLines o1 \<le> 0 then 100000 else co_MaxResponseLines o1),
      greeting = [], guards = []\<rparr>"

definition dial_greeting :: "Ctx \<Rightarrow> ClientOptions \<Rightarrow> unit client_op" where
  "dial_greeting ctx o1 =
     and_then (client_readLine ctx)
       (\<lambda>line. if \<not> isOK line then fail (ProtocolError line)
               else and_then (\<lambda>c. (Done (), c\<lparr>greeting := line\<rparr>))
                      (\<lambda>_. if co_TLS o1 \<and> co_STARTTLS o1 then startTLS ctx else return ()))"

definition Dial :: "Ctx \<Rightarrow> err + Net \<Rightarrow> ClientOptions \<Rightarrow> Client reply" where
  "Dial ctx dialed o1 =
     (case dialed of
        Inl e \<Rightarrow> Failed (NetErr e)
      | Inr raw \<Rightarrow>
          (let (success, conn) =
             (if co_TLS o1 \<and> \<not> co_STARTTLS o1
              then HandshakeContext (ctx_Done ctx)
                     (case ctx_Deadline ctx of
                        None \<Rightarrow> raw | Some d \<Rightarrow> raw\<lparr>rdeadline := Some d, wdeadline := Some d\<rparr>)
              else (True, raw))
           in if \<not> success then Failed (ClientErr ''tls: handshake failed'')
              else case guard ctx (dial_greeting ctx o1) (newClient o1 conn) of
                     (Failed e, c) \<Rightarrow> Failed e
                   | (Blocks, c) \<Rightarrow> Blocks
                   | (Done _, c) \<Rightarrow> Done c))"

section \<open>Parsing the replies\<close>

text \<open>\<open>fmt_q\<close> is the quoting verb \<^verbatim>\<open>%q\<close> of \<^verbatim>\<open>fmt\<close>, which only the error texts use.\<close>

definition parseNumSize :: "(bytes \<Rightarrow> bytes) \<Rightarrow> bytes \<Rightarrow> client_err + (int \<times> int)" where
  "parseNumSize fmt_q line =
     (let malformed = Inl (ClientErr (''pop3client: malformed LIST line '' @ fmt_q line))
      in case Fields line of
           f0 # f1 # _ \<Rightarrow>
             (case ParseInt f0 of
                None \<Rightarrow> malformed
              | Some num \<Rightarrow> (case ParseInt f1 of None \<Rightarrow> malformed | Some sz \<Rightarrow> Inr (num, sz)))
         | _ \<Rightarrow> malformed)"

definition parseNumUID :: "(bytes \<Rightarrow> bytes) \<Rightarrow> bytes \<Rightarrow> client_err + (int \<times> bytes)" where
  "parseNumUID fmt_q line =
     (let malformed = Inl (ClientErr (''pop3client: malformed UIDL line '' @ fmt_q line))
      in case Fields line of
           f0 # f1 # _ \<Rightarrow> (case ParseInt f0 of None \<Rightarrow> malformed | Some num \<Rightarrow> Inr (num, f1))
         | _ \<Rightarrow> malformed)"

text \<open>The loop that parses the lines of a listing and stops at the first malformed one.\<close>

fun parse_lines :: "(bytes \<Rightarrow> client_err + 'i) \<Rightarrow> bytes list \<Rightarrow> client_err + 'i list" where
  "parse_lines f [] = Inr []"
| "parse_lines f (l # ls) =
     (case f l of
        Inl e \<Rightarrow> Inl e
      | Inr i \<Rightarrow> (case parse_lines f ls of Inl e \<Rightarrow> Inl e | Inr is \<Rightarrow> Inr (i # is)))"

definition lift_result :: "client_err + 'a \<Rightarrow> 'a client_op" where
  "lift_result r = (case r of Inl e \<Rightarrow> fail e | Inr a \<Rightarrow> return a)"

definition client_Stat :: "Ctx \<Rightarrow> (int \<times> int) client_op" where
  "client_Stat ctx =
     and_then (Cmd ctx ''STAT'')
       (\<lambda>status.
          if \<not> isOK status then fail (ProtocolError status)
          else case Fields status of
                 _ # f1 # f2 # _ \<Rightarrow>
                   (case ParseInt f1 of
                      None \<Rightarrow> fail (ProtocolError status)
                    | Some count \<Rightarrow>
                        (case ParseInt f2 of
                           None \<Rightarrow> fail (ProtocolError status)
                         | Some sz \<Rightarrow> return (count, sz)))
               | _ \<Rightarrow> fail (ProtocolError status))"

definition client_List :: "(bytes \<Rightarrow> bytes) \<Rightarrow> Ctx \<Rightarrow> MessageInfo list client_op" where
  "client_List fmt_q ctx =
     guard ctx
       (and_then (exchange ctx ''LIST'')
           (\<lambda>status.
              if \<not> isOK status then fail (ProtocolError status)
              else and_then (readMultiLine ctx)
                     (\<lambda>lines. and_then (lift_result (parse_lines (parseNumSize fmt_q) lines))
                       (\<lambda>ps. return (map (\<lambda>(num, sz). \<lparr>Info_Num = num, Info_Size = sz\<rparr>) ps)))))"

definition ListOne :: "(bytes \<Rightarrow> bytes) \<Rightarrow> Ctx \<Rightarrow> int \<Rightarrow> MessageInfo client_op" where
  "ListOne fmt_q ctx msg =
     and_then (Cmd ctx (''LIST '' @ fmt_d msg))
       (\<lambda>status.
          if \<not> isOK status then fail (ProtocolError status)
          else case parseNumSize fmt_q (TrimSpace (TrimPrefix status ''+OK'')) of
                 Inl _ \<Rightarrow> fail (ProtocolError status)
               | Inr (num, sz) \<Rightarrow> return \<lparr>Info_Num = num, Info_Size = sz\<rparr>)"

definition client_Uidl :: "(bytes \<Rightarrow> bytes) \<Rightarrow> Ctx \<Rightarrow> MessageUidl list client_op" where
  "client_Uidl fmt_q ctx =
     guard ctx
       (and_then (exchange ctx ''UIDL'')
           (\<lambda>status.
              if \<not> isOK status then fail (ProtocolError status)
              else and_then (readMultiLine ctx)
                     (\<lambda>lines. and_then (lift_result (parse_lines (parseNumUID fmt_q) lines))
                       (\<lambda>ps. return (map (\<lambda>(num, uid). \<lparr>Uidl_Num = num, Uidl_UniqueID = uid\<rparr>) ps)))))"

definition UidlOne :: "(bytes \<Rightarrow> bytes) \<Rightarrow> Ctx \<Rightarrow> int \<Rightarrow> MessageUidl client_op" where
  "UidlOne fmt_q ctx msg =
     and_then (Cmd ctx (''UIDL '' @ fmt_d msg))
       (\<lambda>status.
          if \<not> isOK status then fail (ProtocolError status)
          else case parseNumUID fmt_q (TrimSpace (TrimPrefix status ''+OK'')) of
                 Inl _ \<Rightarrow> fail (ProtocolError status)
               | Inr (num, uid) \<Rightarrow> return \<lparr>Uidl_Num = num, Uidl_UniqueID = uid\<rparr>)"

definition client_Dele :: "Ctx \<Rightarrow> int \<Rightarrow> unit client_op" where
  "client_Dele ctx msg = cmdExpectOK ctx (''DELE '' @ fmt_d msg)"

definition client_Rset :: "Ctx \<Rightarrow> unit client_op" where
  "client_Rset ctx = cmdExpectOK ctx ''RSET''"

definition client_Noop :: "Ctx \<Rightarrow> unit client_op" where
  "client_Noop ctx = cmdExpectOK ctx ''NOOP''"

section \<open>Bodies\<close>

text \<open>
  The reader over a body. \<open>b_stop\<close> says that it still has to release the guard \<^verbatim>\<open>retrieve\<close>
  armed; the client is an argument of its methods.
\<close>

record bodyReader =
  b_ctx :: Ctx
  b_buf :: bytes
  b_done :: bool
  b_stop :: bool

definition newBody :: "Ctx \<Rightarrow> bodyReader" where
  "newBody ctx = \<lparr>b_ctx = ctx, b_buf = [], b_done = False, b_stop = True\<rparr>"

definition retrieve :: "Ctx \<Rightarrow> bytes \<Rightarrow> bodyReader client_op" where
  "retrieve ctx cmd c0 =
     (case and_then (exchange ctx cmd)
             (\<lambda>status. if \<not> isOK status then fail (ProtocolError status) else return (newBody ctx))
             (arm ctx c0) of
        (Done b, c) \<Rightarrow> (Done b, c)
      | (Failed e, c) \<Rightarrow> (Failed e, stop ctx c)
      | (Blocks, c) \<Rightarrow> (Blocks, c))"

definition client_Retr :: "Ctx \<Rightarrow> int \<Rightarrow> bodyReader client_op" where
  "client_Retr ctx msg = retrieve ctx (''RETR '' @ fmt_d msg)"

definition client_Top :: "Ctx \<Rightarrow> int \<Rightarrow> int \<Rightarrow> bodyReader client_op" where
  "client_Top ctx msg lines = retrieve ctx (''TOP '' @ fmt_d msg @ '' '' @ fmt_d lines)"

definition finish :: "bodyReader \<Rightarrow> Client \<Rightarrow> bodyReader \<times> Client" where
  "finish b c =
     (b\<lparr>b_done := True, b_stop := False\<rparr>, if b_stop b then stop (b_ctx b) c else c)"

datatype body_read = BData bytes | BEOF | BFail client_err | BBlocks

text \<open>
  One \<^verbatim>\<open>Read\<close> into \<open>k\<close> bytes. The loop of the code reads one line at most: a line gives
  at least its line end to return.
\<close>

definition body_take :: "nat \<Rightarrow> bodyReader \<Rightarrow> body_read \<times> bodyReader" where
  "body_take k b = (BData (take k (b_buf b)), b\<lparr>b_buf := drop k (b_buf b)\<rparr>)"

definition body_Read :: "nat \<Rightarrow> bodyReader \<Rightarrow> Client \<Rightarrow> body_read \<times> bodyReader \<times> Client" where
  "body_Read k b c =
     (if b_buf b \<noteq> [] then (let (r, b) = body_take k b in (r, b, c))
      else if b_done b then (BEOF, b, c)
      else case client_readLine (b_ctx b) c of
             (Failed e, c) \<Rightarrow> (BFail e, finish b c)
           | (Blocks, c) \<Rightarrow> (BBlocks, b, c)
           | (Done line, c) \<Rightarrow>
               (if line = [DOT] then (BEOF, finish b c)
                else (let (r, b) = body_take k (b\<lparr>b_buf := unstuffLine line @ CRLF\<rparr>) in (r, b, c))))"

lemma finish_frame [simp]:
  "b_done (fst (finish b c))" "b_ctx (fst (finish b c)) = b_ctx b" "b_buf (fst (finish b c)) = b_buf b"
  "c_conn (snd (finish b c)) = c_conn c" "client_size (snd (finish b c)) = client_size c"
  by (simp_all add: finish_def client_size_def)

text \<open>\<^verbatim>\<open>Close\<close>: what is left of the body is read and dropped.\<close>

function body_Close :: "bodyReader \<Rightarrow> Client \<Rightarrow> unit reply \<times> bodyReader \<times> Client" where
  "body_Close b c =
     (if b_done b then (Done (), finish b c)
      else case client_readLine (b_ctx b) c of
             (Failed e, c') \<Rightarrow> (Failed e, finish b c')
           | (Blocks, c') \<Rightarrow> (Blocks, b, c')
           | (Done line, c') \<Rightarrow>
               (if line = [DOT] then body_Close (fst (finish b c')) (snd (finish b c'))
                else body_Close b c'))"
  by pat_completeness auto
termination
  by (relation "measure (\<lambda>(b, c). client_size c)")
    (auto simp: case_prod_beta intro: client_readLine_size [OF sym])

declare body_Close.simps [simp del]

text \<open>
  A caller that reads to the end: \<^verbatim>\<open>Read\<close> into a buffer of \<open>Suc k\<close> bytes until the end of
  the body or an error, with what was read.
\<close>

lemma body_Read_size:
  assumes "body_Read (Suc k) b c = (BData bs, b', c')"
  shows "client_size c' < client_size c \<or> client_size c' = client_size c \<and> length (b_buf b') < length (b_buf b)"
  using assms client_readLine_size [of "b_ctx b" c]
  by (auto simp: body_Read_def body_take_def Let_def split: if_splits reply.splits prod.splits)

function body_ReadAll ::
    "nat \<Rightarrow> bytes \<Rightarrow> bodyReader \<Rightarrow> Client \<Rightarrow> bytes reply \<times> bodyReader \<times> Client" where
  "body_ReadAll k acc b c =
     (case body_Read (Suc k) b c of
        (BData bs, b', c') \<Rightarrow> body_ReadAll k (acc @ bs) b' c'
      | (BEOF, b', c') \<Rightarrow> (Done acc, b', c')
      | (BFail e, b', c') \<Rightarrow> (Failed e, b', c')
      | (BBlocks, b', c') \<Rightarrow> (Blocks, b', c'))"
  by pat_completeness auto
termination
  by (relation "measures [\<lambda>(k, acc, b, c). client_size c, \<lambda>(k, acc, b, c). length (b_buf b)]")
    (auto dest!: body_Read_size [OF sym])

declare body_ReadAll.simps [simp del]

end
