(* ===== verification/ConnFrame.thy ===== *)
theory ConnFrame
  imports Handlers
begin

text \<open>
  Which fields of the connection the helpers and handlers of \<^verbatim>\<open>conn.go\<close> leave alone
  (\<open>frame_simps\<close>), and what they append to the trace.
\<close>

section \<open>What is left to read\<close>

text \<open>
  The bytes and events the peer has still to deliver, through the present connection and, if there is
  an upgrade, through TLS.
\<close>

definition tls_size :: "Net \<Rightarrow> nat" where
  "tls_size n = (case tls_peer n of None \<Rightarrow> 0 | Some (dt, evs) \<Rightarrow> sum_list (map ev_size evs))"

definition pend_size :: "'s Conn \<Rightarrow> nat" where
  "pend_size c = length (reader c) + net_size (netConn c) + tls_size (netConn c)"

lemma pend_size_update [simp]:
  "pend_size (c\<lparr>writer := w\<rparr>) = pend_size c" "pend_size (c\<lparr>session := s\<rparr>) = pend_size c"
  "pend_size (c\<lparr>state := st\<rparr>) = pend_size c" "pend_size (c\<lparr>username := u\<rparr>) = pend_size c"
  "pend_size (c\<lparr>rawArg := u\<rparr>) = pend_size c" "pend_size (c\<lparr>errorCount := k\<rparr>) = pend_size c"
  "pend_size (c\<lparr>isTLS := b\<rparr>) = pend_size c" "pend_size (c\<lparr>hijacked := b\<rparr>) = pend_size c"
  "pend_size (c\<lparr>closePending := b\<rparr>) = pend_size c" "pend_size (c\<lparr>lastErr := e\<rparr>) = pend_size c"
  "pend_size (c\<lparr>panicking := b\<rparr>) = pend_size c" "pend_size (c\<lparr>blocked := b\<rparr>) = pend_size c"
  "pend_size (c\<lparr>trace := t\<rparr>) = pend_size c" "pend_size (c\<lparr>cmdCtx := x\<rparr>) = pend_size c"
  by (simp_all add: pend_size_def)

section \<open>Frames\<close>

lemma write_string_alt:
  "write_string s c =
     c\<lparr>writer := fst (snd (bufw_Write (writer c, netConn c) s)),
       netConn := snd (snd (bufw_Write (writer c, netConn c) s))\<rparr>"
  by (simp add: write_string_def case_prod_beta)

lemma flush_alt:
  "snd (flush c) =
     c\<lparr>writer := fst (snd (Flush (writer c, netConn c))),
       netConn := snd (snd (Flush (writer c, netConn c)))\<rparr>"
  by (simp add: flush_def case_prod_beta)

lemma write_string_frame [frame_simps, simp]:
  "session (write_string s c) = session c" "state (write_string s c) = state c"
  "username (write_string s c) = username c" "rawArg (write_string s c) = rawArg c" "cmdCtx (write_string s c) = cmdCtx c"
  "errorCount (write_string s c) = errorCount c" "isTLS (write_string s c) = isTLS c"
  "startTime (write_string s c) = startTime c" "hijacked (write_string s c) = hijacked c"
  "closePending (write_string s c) = closePending c" "lastErr (write_string s c) = lastErr c"
  "panicking (write_string s c) = panicking c" "blocked (write_string s c) = blocked c"
  "trace (write_string s c) = trace c" "reader (write_string s c) = reader c"
  "net (netConn (write_string s c)) = net (netConn c)"
  "rdeadline (netConn (write_string s c)) = rdeadline (netConn c)"
  "tls_peer (netConn (write_string s c)) = tls_peer (netConn c)"
  "pend_size (write_string s c) = pend_size c"
  by (simp_all add: write_string_alt pend_size_def net_size_def tls_size_def)

lemma flush_frame [frame_simps, simp]:
  "session (snd (flush c)) = session c" "state (snd (flush c)) = state c"
  "username (snd (flush c)) = username c" "rawArg (snd (flush c)) = rawArg c" "cmdCtx (snd (flush c)) = cmdCtx c"
  "errorCount (snd (flush c)) = errorCount c" "isTLS (snd (flush c)) = isTLS c"
  "startTime (snd (flush c)) = startTime c" "hijacked (snd (flush c)) = hijacked c"
  "closePending (snd (flush c)) = closePending c" "lastErr (snd (flush c)) = lastErr c"
  "panicking (snd (flush c)) = panicking c" "blocked (snd (flush c)) = blocked c"
  "trace (snd (flush c)) = trace c" "reader (snd (flush c)) = reader c"
  "net (netConn (snd (flush c))) = net (netConn c)"
  "rdeadline (netConn (snd (flush c))) = rdeadline (netConn c)"
  "tls_peer (netConn (snd (flush c))) = tls_peer (netConn c)"
  "pend_size (snd (flush c)) = pend_size c"
  by (simp_all add: flush_alt pend_size_def net_size_def tls_size_def)

lemma SetReadDeadline_frame [frame_simps, simp]:
  "session (SetReadDeadline d c) = session c" "state (SetReadDeadline d c) = state c"
  "username (SetReadDeadline d c) = username c" "rawArg (SetReadDeadline d c) = rawArg c" "cmdCtx (SetReadDeadline d c) = cmdCtx c"
  "errorCount (SetReadDeadline d c) = errorCount c" "isTLS (SetReadDeadline d c) = isTLS c"
  "startTime (SetReadDeadline d c) = startTime c" "hijacked (SetReadDeadline d c) = hijacked c"
  "closePending (SetReadDeadline d c) = closePending c"
  "lastErr (SetReadDeadline d c) = lastErr c" "panicking (SetReadDeadline d c) = panicking c"
  "blocked (SetReadDeadline d c) = blocked c" "trace (SetReadDeadline d c) = trace c"
  "reader (SetReadDeadline d c) = reader c" "writer (SetReadDeadline d c) = writer c"
  "rdeadline (netConn (SetReadDeadline d c)) = d"
  "now (netConn (SetReadDeadline d c)) = now (netConn c)"
  "net (netConn (SetReadDeadline d c)) = net (netConn c)" "tls_peer (netConn (SetReadDeadline d c)) = tls_peer (netConn c)"
  "pend_size (SetReadDeadline d c) = pend_size c"
  by (simp_all add: SetReadDeadline_def pend_size_def net_size_def tls_size_def)

lemma SetDeadline_frame [frame_simps, simp]:
  "session (SetDeadline d c) = session c" "state (SetDeadline d c) = state c"
  "username (SetDeadline d c) = username c" "rawArg (SetDeadline d c) = rawArg c" "cmdCtx (SetDeadline d c) = cmdCtx c"
  "errorCount (SetDeadline d c) = errorCount c" "isTLS (SetDeadline d c) = isTLS c"
  "startTime (SetDeadline d c) = startTime c" "hijacked (SetDeadline d c) = hijacked c"
  "closePending (SetDeadline d c) = closePending c"
  "lastErr (SetDeadline d c) = lastErr c" "panicking (SetDeadline d c) = panicking c"
  "blocked (SetDeadline d c) = blocked c" "trace (SetDeadline d c) = trace c"
  "reader (SetDeadline d c) = reader c" "writer (SetDeadline d c) = writer c"
  "rdeadline (netConn (SetDeadline d c)) = d"
  "now (netConn (SetDeadline d c)) = now (netConn c)"
  "net (netConn (SetDeadline d c)) = net (netConn c)"
  "tls_peer (netConn (SetDeadline d c)) = tls_peer (netConn c)"
  "pend_size (SetDeadline d c) = pend_size c"
  by (simp_all add: SetDeadline_def pend_size_def net_size_def tls_size_def)

lemma add_event_frame [frame_simps, simp]:
  "session (add_event e c) = session c" "state (add_event e c) = state c"
  "username (add_event e c) = username c" "rawArg (add_event e c) = rawArg c" "cmdCtx (add_event e c) = cmdCtx c"
  "errorCount (add_event e c) = errorCount c" "isTLS (add_event e c) = isTLS c"
  "startTime (add_event e c) = startTime c" "hijacked (add_event e c) = hijacked c"
  "closePending (add_event e c) = closePending c" "lastErr (add_event e c) = lastErr c"
  "panicking (add_event e c) = panicking c" "blocked (add_event e c) = blocked c"
  "reader (add_event e c) = reader c" "writer (add_event e c) = writer c"
  "netConn (add_event e c) = netConn c" "trace (add_event e c) = trace c @ [e]"
  "pend_size (add_event e c) = pend_size c"
  by (simp_all add: add_event_def)

lemma panic_frame [frame_simps, simp]:
  "session (panic c) = session c" "state (panic c) = state c" "username (panic c) = username c"
  "rawArg (panic c) = rawArg c" "cmdCtx (panic c) = cmdCtx c" "errorCount (panic c) = errorCount c" "isTLS (panic c) = isTLS c"
  "startTime (panic c) = startTime c" "hijacked (panic c) = hijacked c"
  "closePending (panic c) = closePending c" "lastErr (panic c) = lastErr c"
  "blocked (panic c) = blocked c" "trace (panic c) = trace c" "reader (panic c) = reader c"
  "writer (panic c) = writer c" "netConn (panic c) = netConn c" "panicking (panic c)"
  "pend_size (panic c) = pend_size c"
  by (simp_all add: panic_def)

lemma ok_frame [frame_simps, simp]:
  "session (ok msg c) = session c" "state (ok msg c) = state c" "username (ok msg c) = username c"
  "rawArg (ok msg c) = rawArg c" "cmdCtx (ok msg c) = cmdCtx c" "errorCount (ok msg c) = errorCount c"
  "isTLS (ok msg c) = isTLS c" "startTime (ok msg c) = startTime c"
  "hijacked (ok msg c) = hijacked c" "closePending (ok msg c) = closePending c"
  "lastErr (ok msg c) = lastErr c" "panicking (ok msg c) = panicking c"
  "blocked (ok msg c) = blocked c" "trace (ok msg c) = trace c" "reader (ok msg c) = reader c"
  "net (netConn (ok msg c)) = net (netConn c)"
  "tls_peer (netConn (ok msg c)) = tls_peer (netConn c)" "pend_size (ok msg c) = pend_size c"
  by (simp_all add: ok_def)

lemma err_resp_frame [frame_simps, simp]:
  "session (err_resp msg c) = session c" "state (err_resp msg c) = state c"
  "username (err_resp msg c) = username c" "rawArg (err_resp msg c) = rawArg c" "cmdCtx (err_resp msg c) = cmdCtx c"
  "errorCount (err_resp msg c) = errorCount c" "isTLS (err_resp msg c) = isTLS c"
  "startTime (err_resp msg c) = startTime c" "hijacked (err_resp msg c) = hijacked c"
  "closePending (err_resp msg c) = closePending c" "lastErr (err_resp msg c) = lastErr c"
  "panicking (err_resp msg c) = panicking c" "blocked (err_resp msg c) = blocked c"
  "trace (err_resp msg c) = trace c" "reader (err_resp msg c) = reader c"
  "net (netConn (err_resp msg c)) = net (netConn c)"
  "tls_peer (netConn (err_resp msg c)) = tls_peer (netConn c)"
  "pend_size (err_resp msg c) = pend_size c"
  by (simp_all add: err_resp_def)

lemma applyErrorDelay_frame [frame_simps, simp]:
  "session (applyErrorDelay srv c) = session c" "state (applyErrorDelay srv c) = state c"
  "username (applyErrorDelay srv c) = username c" "rawArg (applyErrorDelay srv c) = rawArg c" "cmdCtx (applyErrorDelay srv c) = cmdCtx c"
  "errorCount (applyErrorDelay srv c) = errorCount c" "isTLS (applyErrorDelay srv c) = isTLS c"
  "startTime (applyErrorDelay srv c) = startTime c"
  "hijacked (applyErrorDelay srv c) = hijacked c"
  "closePending (applyErrorDelay srv c) = closePending c"
  "lastErr (applyErrorDelay srv c) = lastErr c" "panicking (applyErrorDelay srv c) = panicking c"
  "blocked (applyErrorDelay srv c) = blocked c" "trace (applyErrorDelay srv c) = trace c"
  "reader (applyErrorDelay srv c) = reader c" "writer (applyErrorDelay srv c) = writer c"
  "pend_size (applyErrorDelay srv c) = pend_size c"
  by (simp_all add: applyErrorDelay_def pend_size_def net_size_def tls_size_def Let_def)

lemma clientError_frame [frame_simps, simp]:
  "session (clientError srv msg c) = session c" "state (clientError srv msg c) = state c"
  "username (clientError srv msg c) = username c" "rawArg (clientError srv msg c) = rawArg c" "cmdCtx (clientError srv msg c) = cmdCtx c"
  "isTLS (clientError srv msg c) = isTLS c" "startTime (clientError srv msg c) = startTime c"
  "hijacked (clientError srv msg c) = hijacked c"
  "closePending (clientError srv msg c) = closePending c"
  "panicking (clientError srv msg c) = panicking c" "blocked (clientError srv msg c) = blocked c"
  "trace (clientError srv msg c) = trace c" "reader (clientError srv msg c) = reader c"
  "errorCount (clientError srv msg c) = errorCount c + 1"
  "pend_size (clientError srv msg c) = pend_size c"
  by (simp_all add: clientError_def Let_def)

lemma sessionError_frame [frame_simps, simp]:
  "session (sessionError srv e c) = session c" "state (sessionError srv e c) = state c"
  "username (sessionError srv e c) = username c" "rawArg (sessionError srv e c) = rawArg c" "cmdCtx (sessionError srv e c) = cmdCtx c"
  "errorCount (sessionError srv e c) = errorCount c" "isTLS (sessionError srv e c) = isTLS c"
  "startTime (sessionError srv e c) = startTime c" "hijacked (sessionError srv e c) = hijacked c"
  "panicking (sessionError srv e c) = panicking c" "blocked (sessionError srv e c) = blocked c"
  "trace (sessionError srv e c) = trace c" "reader (sessionError srv e c) = reader c"
  "lastErr (sessionError srv e c) = Some e" "pend_size (sessionError srv e c) = pend_size c"
  by (simp_all add: sessionError_def Let_def split: option.splits)

lemma arm_deadline_frame [frame_simps, simp]:
  "session (arm_deadline srv c) = session c" "state (arm_deadline srv c) = state c"
  "username (arm_deadline srv c) = username c" "rawArg (arm_deadline srv c) = rawArg c" "cmdCtx (arm_deadline srv c) = cmdCtx c"
  "errorCount (arm_deadline srv c) = errorCount c" "isTLS (arm_deadline srv c) = isTLS c"
  "startTime (arm_deadline srv c) = startTime c" "hijacked (arm_deadline srv c) = hijacked c"
  "closePending (arm_deadline srv c) = closePending c" "lastErr (arm_deadline srv c) = lastErr c"
  "panicking (arm_deadline srv c) = panicking c" "blocked (arm_deadline srv c) = blocked c"
  "trace (arm_deadline srv c) = trace c" "reader (arm_deadline srv c) = reader c"
  "writer (arm_deadline srv c) = writer c" "tls_peer (netConn (arm_deadline srv c)) = tls_peer (netConn c)" "pend_size (arm_deadline srv c) = pend_size c"
  by (simp_all add: arm_deadline_def split: option.splits)

lemma writeCap_frame [frame_simps, simp]:
  "session (writeCap srv name params c) = session c"
  "state (writeCap srv name params c) = state c"
  "username (writeCap srv name params c) = username c"
  "rawArg (writeCap srv name params c) = rawArg c" "cmdCtx (writeCap srv name params c) = cmdCtx c"
  "errorCount (writeCap srv name params c) = errorCount c"
  "isTLS (writeCap srv name params c) = isTLS c"
  "startTime (writeCap srv name params c) = startTime c"
  "hijacked (writeCap srv name params c) = hijacked c"
  "closePending (writeCap srv name params c) = closePending c"
  "lastErr (writeCap srv name params c) = lastErr c"
  "panicking (writeCap srv name params c) = panicking c"
  "blocked (writeCap srv name params c) = blocked c"
  "trace (writeCap srv name params c) = trace c" "reader (writeCap srv name params c) = reader c"
  "pend_size (writeCap srv name params c) = pend_size c"
  by (simp_all add: writeCap_def Let_def)

lemma unknown_command_frame [frame_simps, simp]:
  "session (unknown_command srv cmd c) = session c" "state (unknown_command srv cmd c) = state c"
  "username (unknown_command srv cmd c) = username c"
  "rawArg (unknown_command srv cmd c) = rawArg c" "cmdCtx (unknown_command srv cmd c) = cmdCtx c" "isTLS (unknown_command srv cmd c) = isTLS c"
  "startTime (unknown_command srv cmd c) = startTime c"
  "hijacked (unknown_command srv cmd c) = hijacked c"
  "closePending (unknown_command srv cmd c) = closePending c"
  "panicking (unknown_command srv cmd c) = panicking c"
  "blocked (unknown_command srv cmd c) = blocked c" "trace (unknown_command srv cmd c) = trace c"
  "reader (unknown_command srv cmd c) = reader c"
  "errorCount (unknown_command srv cmd c) = errorCount c + 1"
  "pend_size (unknown_command srv cmd c) = pend_size c"
  by (simp_all add: unknown_command_def)

lemma elapse_frame [frame_simps, simp]:
  "session (elapse srv k c) = session c" "state (elapse srv k c) = state c"
  "username (elapse srv k c) = username c" "rawArg (elapse srv k c) = rawArg c" "cmdCtx (elapse srv k c) = cmdCtx c"
  "errorCount (elapse srv k c) = errorCount c" "isTLS (elapse srv k c) = isTLS c"
  "startTime (elapse srv k c) = startTime c" "hijacked (elapse srv k c) = hijacked c"
  "closePending (elapse srv k c) = closePending c" "lastErr (elapse srv k c) = lastErr c"
  "panicking (elapse srv k c) = panicking c" "blocked (elapse srv k c) = blocked c"
  "trace (elapse srv k c) = trace c" "reader (elapse srv k c) = reader c" "writer (elapse srv k c) = writer c"
  "net (netConn (elapse srv k c)) = net (netConn c)" "tls_peer (netConn (elapse srv k c)) = tls_peer (netConn c)"
  "sent (netConn (elapse srv k c)) = sent (netConn c)" "lag (netConn (elapse srv k c)) = lag (netConn c)"
  "pend_size (elapse srv k c) = pend_size c"
  by (simp_all add: elapse_def pend_size_def net_size_def tls_size_def Let_def)

lemma SetTLS_frame [frame_simps, simp]:
  "session (SetTLS v c) = session c" "state (SetTLS v c) = state c" "errorCount (SetTLS v c) = errorCount c"
  "startTime (SetTLS v c) = startTime c" "hijacked (SetTLS v c) = hijacked c" "panicking (SetTLS v c) = panicking c"
  "blocked (SetTLS v c) = blocked c" "reader (SetTLS v c) = reader c" "writer (SetTLS v c) = writer c"
  "netConn (SetTLS v c) = netConn c" "username (SetTLS v c) = username c" "cmdCtx (SetTLS v c) = cmdCtx c"
  "trace (SetTLS v c) = trace c @ [EvSetTLS v]" "isTLS (SetTLS v c) = v" "pend_size (SetTLS v c) = pend_size c"
  by (simp_all add: SetTLS_def add_event_def pend_size_def)

section \<open>The clock\<close>

text \<open>
  How long a connection can last. Reads and the back-off end by the absolute session timeout, and so does
  a call of the session, whose context is then done, if the session honours it. A write
  that fails may wait for \<open>WriteTimeout\<close>, but a writer that has failed once does not write again, and
  only the TLS upgrade makes a new one. The writes that succeed take the time for which the peer holds
  them up. \<open>credit\<close> is the time that writes can still take; \<open>on_time\<close> says that a step from \<open>c\<close>
  to \<open>c'\<close> uses no more than that.
\<close>

definition honours :: "'s Session \<Rightarrow> bool" where
  "honours m \<longleftrightarrow> (\<forall>k left s. int (s_Takes m k (Some left) s) \<le> max 0 left)"

definition timed :: "'s Server \<Rightarrow> 's Conn \<Rightarrow> bool" where
  "timed srv c \<longleftrightarrow>
     WriteTimeout (opts srv) > 0 \<and> wtimeout (writer c) = WriteTimeout (opts srv) \<and> honours (meths srv)
     \<and> (\<exists>d. cmdCtx c = Some d \<and> d \<le> startTime c + AbsoluteSessionTimeout (opts srv))"

definition credit :: "'s Conn \<Rightarrow> int" where
  "credit c = room (writer c) + (if tls_peer (netConn c) = None then 0 else wtimeout (writer c)) + lag (netConn c)"

definition last_instant :: "'s Server \<Rightarrow> 's Conn \<Rightarrow> int" where
  "last_instant srv c =
     startTime c + AbsoluteSessionTimeout (opts srv) + 2 * WriteTimeout (opts srv) + lag (netConn c)"

definition on_time :: "'s Server \<Rightarrow> 's Conn \<Rightarrow> 's Conn \<Rightarrow> bool" where
  "on_time srv c c' \<longleftrightarrow>
     (AbsoluteSessionTimeout (opts srv) > 0 \<and> timed srv c \<longrightarrow>
        timed srv c' \<and> lag (netConn c') \<le> lag (netConn c)
        \<and> now (netConn c') + credit c' \<le> max (now (netConn c) + credit c) (last_instant srv c))"

lemma credit_bounds: "timed srv c \<Longrightarrow> 0 \<le> credit c \<and> credit c \<le> 2 * WriteTimeout (opts srv) + lag (netConn c)"
  by (simp add: timed_def credit_def room_def)

lemma on_time_refl [simp]: "on_time srv c c"
  by (simp add: on_time_def)

lemma on_time_trans:
  "on_time srv c d \<Longrightarrow> on_time srv d e \<Longrightarrow> startTime d = startTime c \<Longrightarrow> on_time srv c e"
  by (auto simp: on_time_def last_instant_def)

text \<open>What leaves the clock, the writer, the peer and the context alone.\<close>

lemma on_time_cong:
  "writer e = writer d \<Longrightarrow> now (netConn e) = now (netConn d) \<Longrightarrow> lag (netConn e) = lag (netConn d) \<Longrightarrow>
     tls_peer (netConn e) = tls_peer (netConn d) \<Longrightarrow> cmdCtx e = cmdCtx d \<Longrightarrow> startTime e = startTime d \<Longrightarrow> on_time srv c e = on_time srv c d"
  by (simp add: on_time_def timed_def credit_def)

lemma on_time_update [simp]:
  "on_time srv c (d\<lparr>session := s\<rparr>) = on_time srv c d" "on_time srv c (d\<lparr>isTLS := b\<rparr>) = on_time srv c d" "on_time srv c (d\<lparr>state := st\<rparr>) = on_time srv c d"
  "on_time srv c (d\<lparr>username := u\<rparr>) = on_time srv c d" "on_time srv c (d\<lparr>rawArg := u\<rparr>) = on_time srv c d"
  "on_time srv c (d\<lparr>errorCount := k\<rparr>) = on_time srv c d" "on_time srv c (d\<lparr>hijacked := b\<rparr>) = on_time srv c d"
  "on_time srv c (d\<lparr>closePending := b\<rparr>) = on_time srv c d" "on_time srv c (d\<lparr>lastErr := le\<rparr>) = on_time srv c d"
  "on_time srv c (d\<lparr>blocked := b\<rparr>) = on_time srv c d" "on_time srv c (add_event e d) = on_time srv c d"
  "on_time srv c (panic d) = on_time srv c d" "on_time srv c (SetReadDeadline dl d) = on_time srv c d"
  "on_time srv c (SetDeadline dl d) = on_time srv c d"
  by (rule on_time_cong; simp add: SetReadDeadline_def SetDeadline_def)+

lemma arm_deadline_now [frame_simps, simp]: "now (netConn (arm_deadline srv c)) = now (netConn c)"
  by (simp add: arm_deadline_def split: option.split)

lemma lag_deadline [simp]:
  "lag (netConn (SetReadDeadline d c)) = lag (netConn c)" "lag (netConn (SetDeadline d c)) = lag (netConn c)"
  "lag (netConn (arm_deadline srv c)) = lag (netConn c)"
  by (simp_all add: arm_deadline_def SetReadDeadline_def SetDeadline_def split: option.split)

lemma on_time_writes:
  assumes "on_time srv c d" "writes_to (writer d, netConn d) (writer e, netConn e)" "cmdCtx e = cmdCtx d"
    "startTime e = startTime d"
  shows "on_time srv c e"
  using assms by (fastforce simp: on_time_def timed_def credit_def writes_to_def)

text \<open>Writing and flushing.\<close>

lemma on_time_write_string [simp]: "on_time srv c d \<Longrightarrow> on_time srv c (write_string s d)"
  by (rule on_time_writes) (simp_all add: write_string_alt bufw_Write_steady)

lemma on_time_flush [simp]: "on_time srv c d \<Longrightarrow> on_time srv c (snd (flush d))"
  by (rule on_time_writes) (simp_all add: flush_alt Flush_steady)

lemma on_time_write [simp]:
  "on_time srv c d \<Longrightarrow> on_time srv c (ok msg d)" "on_time srv c d \<Longrightarrow> on_time srv c (err_resp msg d)"
  "on_time srv c d \<Longrightarrow> on_time srv c (writeCap srv' name params d)"
  "on_time srv c d \<Longrightarrow> on_time srv c (sessionError srv' e d)" "on_time srv c d \<Longrightarrow> on_time srv c (SetTLS v d)"
  by (auto simp: ok_def err_resp_def writeCap_def sessionError_def SetTLS_def Let_def split: option.split)+

lemma on_time_fold:
  "(\<And>x d. on_time srv c d \<Longrightarrow> on_time srv c (g x d)) \<Longrightarrow> on_time srv c d \<Longrightarrow> on_time srv c (fold g xs d)"
  by (induction xs arbitrary: d) auto

text \<open>Waiting until the absolute session timeout at the latest.\<close>

lemma on_time_spend:
  assumes "on_time srv c d" "startTime d = startTime c"
    and "timed srv d \<Longrightarrow> timed srv e \<and> credit e \<le> credit d \<and> lag (netConn e) \<le> lag (netConn d)"
    and "AbsoluteSessionTimeout (opts srv) > 0 \<Longrightarrow> timed srv d \<Longrightarrow>
      now (netConn e) \<le> max (now (netConn d)) (startTime d + AbsoluteSessionTimeout (opts srv))"
  shows "on_time srv c e"
proof -
  have "timed srv d \<Longrightarrow> credit d \<le> 2 * WriteTimeout (opts srv) + lag (netConn d)" using credit_bounds by blast
  then show ?thesis
    using assms by (force simp: on_time_def last_instant_def)
qed

lemma on_time_wait:
  assumes "on_time srv c d" "startTime d = startTime c" "writer e = writer d" "tls_peer (netConn e) = tls_peer (netConn d)"
    "cmdCtx e = cmdCtx d" "startTime e = startTime d" "lag (netConn e) = lag (netConn d)"
    and "AbsoluteSessionTimeout (opts srv) > 0 \<Longrightarrow> timed srv d \<Longrightarrow>
      now (netConn e) \<le> max (now (netConn d)) (startTime d + AbsoluteSessionTimeout (opts srv))"
  shows "on_time srv c e"
  by (rule on_time_spend [of srv c d]) (use assms in \<open>simp_all add: timed_def credit_def\<close>)

lemma earlier_le: "earlier (Some d) ctx = Some e \<Longrightarrow> e \<le> d"
  by (cases ctx) auto

lemma earlier_Some:
  "earlier (Some d) x = Some (case x of None \<Rightarrow> d | Some e \<Rightarrow> min d e)"
  "earlier x (Some d) = Some (case x of None \<Rightarrow> d | Some e \<Rightarrow> min e d)"
  by (cases x; simp)+

lemma applyErrorDelay_now:
  "AbsoluteSessionTimeout (opts srv) > 0 \<Longrightarrow>
     now (netConn (applyErrorDelay srv c)) \<le>
       max (now (netConn c)) (startTime c + AbsoluteSessionTimeout (opts srv))"
  by (auto simp: applyErrorDelay_def Let_def conn_ctx_def earlier_Some split: option.split)

lemma on_time_applyErrorDelay [simp]:
  "on_time srv c d \<Longrightarrow> startTime d = startTime c \<Longrightarrow> on_time srv c (applyErrorDelay srv d)"
  by (rule on_time_wait [of srv c d], assumption, assumption)
    (use applyErrorDelay_now [of srv d] in \<open>simp_all add: applyErrorDelay_def Let_def\<close>)

lemma elapse_now:
  assumes "timed srv c"
  shows "now (netConn (elapse srv k c)) \<le> max (now (netConn c)) (startTime c + AbsoluteSessionTimeout (opts srv))"
proof -
  obtain d where d: "cmdCtx c = Some d" "d \<le> startTime c + AbsoluteSessionTimeout (opts srv)"
    using assms by (auto simp: timed_def)
  have "int (s_Takes (meths srv) k (Some (d - now (netConn c))) (session c)) \<le> max 0 (d - now (netConn c))"
    using assms by (simp add: timed_def honours_def)
  with d show ?thesis by (simp add: elapse_def Let_def)
qed

lemma on_time_elapse [simp]:
  "on_time srv c d \<Longrightarrow> startTime d = startTime c \<Longrightarrow> on_time srv c (elapse srv k d)"
  by (rule on_time_wait [of srv c d], assumption, assumption) (use elapse_now [of srv d k] in simp_all)

lemma on_time_clientError [simp]:
  "on_time srv c d \<Longrightarrow> startTime d = startTime c \<Longrightarrow> on_time srv c (clientError srv msg d)"
  "on_time srv c d \<Longrightarrow> startTime d = startTime c \<Longrightarrow> on_time srv c (unknown_command srv cmd d)"
  by (simp_all add: clientError_def unknown_command_def Let_def)

section \<open>Well-formed connections\<close>

text \<open>
  What every connection keeps to: neither buffer holds more than its size, the error count is not negative,
  and the user name has no control character.
\<close>

definition formed :: "'s Conn \<Rightarrow> bool" where
  "formed c \<longleftrightarrow>
     length (reader c) \<le> bufsize \<and> length (wbuf (writer c)) \<le> bufsize \<and> 0 \<le> errorCount c
     \<and> \<not> containsCTL (username c)"

lemma formed_cong:
  "reader d = reader c \<Longrightarrow> writer d = writer c \<Longrightarrow> errorCount d = errorCount c \<Longrightarrow> username d = username c \<Longrightarrow>
     formed d = formed c"
  by (simp add: formed_def)

lemma formed_update [simp]:
  "formed (c\<lparr>session := s\<rparr>) = formed c" "formed (c\<lparr>state := st\<rparr>) = formed c" "formed (c\<lparr>isTLS := b\<rparr>) = formed c"
  "formed (c\<lparr>rawArg := u\<rparr>) = formed c" "formed (c\<lparr>hijacked := b\<rparr>) = formed c" "formed (c\<lparr>cmdCtx := x\<rparr>) = formed c"
  "formed (c\<lparr>closePending := b\<rparr>) = formed c" "formed (c\<lparr>lastErr := le\<rparr>) = formed c"
  "formed (c\<lparr>blocked := b\<rparr>) = formed c" "formed (add_event e c) = formed c" "formed (panic c) = formed c"
  "formed (SetReadDeadline dl c) = formed c" "formed (SetDeadline dl c) = formed c" "formed (elapse srv k c) = formed c"
  "formed (SetTLS v c) = formed c" "formed (arm_deadline srv c) = formed c" "formed (applyErrorDelay srv c) = formed c"
  by (rule formed_cong; simp add: panic_def)+

lemma formed_writes:
  assumes "formed c" "writes_to (writer c, netConn c) (writer d, netConn d)" "reader d = reader c"
    "errorCount d = errorCount c" "username d = username c"
  shows "formed d"
  using assms by (simp add: formed_def writes_to_def)

lemma formed_write_string [simp]: "formed c \<Longrightarrow> formed (write_string s c)"
  by (rule formed_writes) (simp_all add: write_string_alt bufw_Write_steady)

lemma formed_flush [simp]: "formed c \<Longrightarrow> formed (snd (flush c))"
  by (rule formed_writes) (simp_all add: flush_alt Flush_steady)

lemma formed_write [simp]:
  "formed c \<Longrightarrow> formed (ok msg c)" "formed c \<Longrightarrow> formed (err_resp msg c)"
  "formed c \<Longrightarrow> formed (writeCap srv name params c)" "formed c \<Longrightarrow> formed (sessionError srv e c)"
  by (auto simp: ok_def err_resp_def writeCap_def sessionError_def Let_def split: option.split)+

lemma formed_nonneg: "formed c \<Longrightarrow> 0 \<le> errorCount c"
  by (simp add: formed_def)

lemma formed_errorCount [simp]: "formed c \<Longrightarrow> 0 \<le> k \<Longrightarrow> formed (c\<lparr>errorCount := k\<rparr>)"
  by (simp add: formed_def)

lemma formed_clientError [simp]:
  "formed c \<Longrightarrow> formed (clientError srv msg c)" "formed c \<Longrightarrow> formed (unknown_command srv cmd c)"
  using formed_nonneg [of c] by (simp_all add: clientError_def unknown_command_def Let_def)

lemma formed_username [simp]: "formed c \<Longrightarrow> \<not> containsCTL u \<Longrightarrow> formed (c\<lparr>username := u\<rparr>)"
  by (simp add: formed_def)

end
