(* ===== verification/Protocol.thy ===== *)
theory Protocol
  imports ConnFrame
begin

text \<open>
  The contract every command handler keeps (\<open>handles\<close>), proved handler by handler and then for
  the dispatcher: what it may call on the session in which state, how the error count, the state
  and the TLS flag may change, and that it never makes more input.
\<close>

section \<open>What may be called when\<close>

fun is_login :: "call \<Rightarrow> bool" where
  "is_login (CLogin u p) = True"
| "is_login (CAuthenticatePlain i u p) = True"
| "is_login _ = False"

fun is_transaction :: "call \<Rightarrow> bool" where
  "is_transaction (CLogin u p) = False"
| "is_transaction (CAuthenticatePlain i u p) = False"
| "is_transaction (CSetLanguage t) = False"
| "is_transaction CListLanguages = False"
| "is_transaction CEnableUTF8 = False"
| "is_transaction (CUnknownCommand cmd) = False"
| "is_transaction _ = True"

fun permitted :: "'s Server \<Rightarrow> 's Conn \<Rightarrow> event \<Rightarrow> bool" where
  "permitted srv c (EvCall k r) =
     ((is_login k \<longrightarrow> state c = stateAuthorization \<and> authAllowed srv c)
      \<and> (is_transaction k \<longrightarrow> state c = stateTransaction))"
| "permitted srv c EvBodyClose = True"
| "permitted srv c (EvSetTLS v) = True"
| "permitted srv c (EvTLS b) = (state c = stateAuthorization \<and> \<not> isTLS c)"
| "permitted srv c _ = False"

fun login_ok :: "event \<Rightarrow> bool" where
  "login_ok (EvCall k r) = (is_login k \<and> r)"
| "login_ok _ = False"

fun failed_login :: "event \<Rightarrow> bool" where
  "failed_login (EvCall k r) = (is_login k \<and> \<not> r)"
| "failed_login _ = False"

fun is_call :: "event \<Rightarrow> bool" where
  "is_call (EvCall k r) = True"
| "is_call _ = False"

fun is_quit :: "event \<Rightarrow> bool" where
  "is_quit (EvCall k r) = (k = CQuit)"
| "is_quit _ = False"

text \<open>
  The arguments a session can count on: message numbers from 1 to \<open>2\<^sup>3\<^sup>1 - 1\<close> (or 0 for all messages
  where the method allows it), a number of lines that is not negative, user names and identities without
  control characters, no empty user name or password from USER and PASS.
\<close>

fun wf_call :: "call \<Rightarrow> bool" where
  "wf_call (CLogin u p) = (u \<noteq> [] \<and> \<not> containsCTL u \<and> p \<noteq> [])"
| "wf_call (CAuthenticatePlain i u p) = (\<not> containsCTL i \<and> \<not> containsCTL u \<and> NUL \<notin> set p)"
| "wf_call (CList msg) = (0 \<le> msg \<and> msg \<le> 2 ^ 31 - 1)"
| "wf_call (CUidl msg) = (0 \<le> msg \<and> msg \<le> 2 ^ 31 - 1)"
| "wf_call (CRetr msg) = (1 \<le> msg \<and> msg \<le> 2 ^ 31 - 1)"
| "wf_call (CTop msg lines) = (1 \<le> msg \<and> msg \<le> 2 ^ 31 - 1 \<and> 0 \<le> lines \<and> lines \<le> 2 ^ 31 - 1)"
| "wf_call (CDele msg) = (1 \<le> msg \<and> msg \<le> 2 ^ 31 - 1)"
| "wf_call _ = True"

fun wf_event :: "event \<Rightarrow> bool" where
  "wf_event (EvCall k r) = wf_call k"
| "wf_event _ = True"

lemma parseMsgNum_wf: "parseMsgNum args = Inr msg \<Longrightarrow> 1 \<le> msg \<and> msg \<le> 2 ^ 31 - 1"
  by (auto simp: parseMsgNum_def parseInt_Inr_iff split: list.splits sum.splits if_splits)

lemma parseOptionalMsgNum_wf: "parseOptionalMsgNum args = Inr msg \<Longrightarrow> 0 \<le> msg \<and> msg \<le> 2 ^ 31 - 1"
  by (auto simp: parseOptionalMsgNum_def split: if_splits dest: parseMsgNum_wf)

text \<open>
  What a call does to the session: its result and the state it leaves. A run of the connection is,
  for the session, the sequence of its calls (\<open>session_run\<close>).
\<close>

definition result_of :: "('s \<Rightarrow> 'a outcome \<times> 's) \<Rightarrow> bool \<Rightarrow> 's \<Rightarrow> 's \<Rightarrow> bool" where
  "result_of m r s s' \<longleftrightarrow> r = returned (fst (m s)) \<and> s' = snd (m s)"

definition login_result :: "'s login_step \<Rightarrow> bool \<Rightarrow> 's \<Rightarrow> bool" where
  "login_result st r s' \<longleftrightarrow>
     (case st of
        LDone q t \<Rightarrow> r = returned q \<and> s' = t
      | LHijack f \<Rightarrow> \<exists>h. r = returned (fst (f h)) \<and> s' = snd (f h))"

primrec handler_result :: "'s handler \<Rightarrow> bool \<Rightarrow> 's \<Rightarrow> bool" where
  "handler_result (HReturn handled closeConn s) r s' = (r \<and> s' = s)"
| "handler_result (HPanic s) r s' = (\<not> r \<and> s' = s)"
| "handler_result (HOK msg k) r s' = handler_result k r s'"
| "handler_result (HErr msg k) r s' = handler_result k r s'"
| "handler_result (HIsTLS k) r s' = (\<exists>b. handler_result (k b) r s')"
| "handler_result (HSetTLS v k) r s' = handler_result k r s'"
| "handler_result (HHijack k) r s' = (\<exists>h. handler_result (k h) r s')"

fun effect :: "'s Server \<Rightarrow> call \<Rightarrow> bool \<Rightarrow> 's \<Rightarrow> 's \<Rightarrow> bool" where
  "effect srv (CLogin u p) r s s' = login_result (s_Login (meths srv) u p s) r s'"
| "effect srv (CAuthenticatePlain i u p) r s s' =
     (\<exists>x. s_SASL (meths srv) = Some x \<and> login_result (AuthenticatePlain x i u p s) r s')"
| "effect srv CStat r s s' = result_of (s_Stat (meths srv)) r s s'"
| "effect srv (CList msg) r s s' = result_of (s_List (meths srv) msg) r s s'"
| "effect srv (CUidl msg) r s s' = result_of (s_Uidl (meths srv) msg) r s s'"
| "effect srv (CRetr msg) r s s' = result_of (s_Retr (meths srv) msg) r s s'"
| "effect srv (CTop msg l) r s s' = result_of (s_Top (meths srv) msg l) r s s'"
| "effect srv (CDele msg) r s s' = result_of (s_Dele (meths srv) msg) r s s'"
| "effect srv CRset r s s' = result_of (s_Rset (meths srv)) r s s'"
| "effect srv CNoop r s s' = result_of (s_Noop (meths srv)) r s s'"
| "effect srv CQuit r s s' = result_of (s_Quit (meths srv)) r s s'"
| "effect srv (CSetLanguage t) r s s' =
     (\<exists>x. s_Lang (meths srv) = Some x \<and> result_of (SetLanguage x t) r s s')"
| "effect srv CListLanguages r s s' =
     (\<exists>x. s_Lang (meths srv) = Some x \<and> result_of (ListLanguages x) r s s')"
| "effect srv CEnableUTF8 r s s' =
     (\<exists>x. s_UTF8 (meths srv) = Some x \<and> result_of (EnableUTF8 x) r s s')"
| "effect srv (CUnknownCommand cmd) r s s' =
     (\<exists>h args. UnknownCommandHandler (opts srv) = Some h \<and> handler_result (h cmd args s) r s')"

fun session_run :: "'s Server \<Rightarrow> event list \<Rightarrow> 's \<Rightarrow> 's \<Rightarrow> bool" where
  "session_run srv [] s s' = (s = s')"
| "session_run srv (EvCall k r # es) s s' = (\<exists>t. effect srv k r s t \<and> session_run srv es t s')"
| "session_run srv (EvSessionClose # es) s s' = session_run srv es (snd (s_Close (meths srv) s)) s'"
| "session_run srv (e # es) s s' = session_run srv es s s'"

lemma session_run_append:
  "session_run srv (a @ b) s s' \<longleftrightarrow> (\<exists>t. session_run srv a s t \<and> session_run srv b t s')"
proof (induction a arbitrary: s)
  case (Cons e a)
  then show ?case by (cases e) auto
qed simp

lemma session_run_bodies: "set es \<subseteq> {EvBodyClose} \<Longrightarrow> session_run srv es s s' \<longleftrightarrow> s = s'"
  by (induction es) auto

definition new_events :: "'s Conn \<Rightarrow> 's Conn \<Rightarrow> event list" where
  "new_events c c' = drop (length (trace c)) (trace c')"

definition handles :: "'s Server \<Rightarrow> bool \<Rightarrow> 's Conn \<Rightarrow> 's Conn \<Rightarrow> bool" where
  "handles srv q c c' \<longleftrightarrow>
     pend_size c' \<le> pend_size c
     \<and> errorCount c \<le> errorCount c' \<and> errorCount c' \<le> errorCount c + 1
     \<and> startTime c' = startTime c
     \<and> (isTLS c \<longrightarrow> isTLS c' \<or> EvSetTLS False \<in> set (new_events c c'))
     \<and> prefix (trace c) (trace c')
     \<and> list_all (permitted srv c) (new_events c c')
     \<and> (q \<or> list_all (Not \<circ> is_quit) (new_events c c'))
     \<and> length (filter is_call (new_events c c')) \<le> 1
     \<and> (isTLS c' \<longrightarrow> isTLS c \<or> EvTLS True \<in> set (new_events c c') \<or> EvSetTLS True \<in> set (new_events c c'))
     \<and> (list_ex login_ok (new_events c c') \<longrightarrow> state c' = stateTransaction \<or> hijacked c')
     \<and> (AuthFailuresExemptFromMaxErrors (opts srv) \<or> panicking c'
        \<or> int (length (filter failed_login (new_events c c'))) \<le> errorCount c' - errorCount c)
     \<and> (IdleTimeout (opts srv) > 0 \<or> AbsoluteSessionTimeout (opts srv) > 0 \<longrightarrow> blocked c' \<longrightarrow> blocked c)
     \<and> on_time srv c c'
     \<and> (formed c \<longrightarrow> formed c' \<and> list_all wf_event (new_events c c'))
     \<and> session_run srv (new_events c c') (session c) (session c')
     \<and> (state c = stateTransaction \<longrightarrow> state c' = stateTransaction)
     \<and> (state c' = stateTransaction \<longrightarrow> state c = stateTransaction \<or> list_ex login_ok (new_events c c'))"

lemmas handles_simps = handles_def new_events_def Let_def

lemma new_events_append [simp]:
  "trace c' = trace c @ es \<Longrightarrow> new_events c c' = es"
  by (simp add: new_events_def)

lemma handles_on_time: "handles srv q c c' \<Longrightarrow> on_time srv c c'"
  unfolding handles_def by (elim conjE)

section \<open>The handlers\<close>

lemma fold_frame:
  assumes "\<And>x c. f (g x c) = f c"
  shows "f (fold g xs c) = f c"
  using assms by (induction xs arbitrary: c) simp_all

lemma handles_clientError: "handles srv q c (clientError srv msg c)"
  by (simp add: handles_simps)

text \<open>Copying a body: besides writing, an event, and on failure the request to close.\<close>

lemma pend_size_output:
  "net n = net (netConn c) \<Longrightarrow> tls_peer n = tls_peer (netConn c) \<Longrightarrow>
     pend_size (c\<lparr>netConn := n\<rparr>) = pend_size c"
  by (simp add: pend_size_def net_size_def tls_size_def)

lemma copy_body_frame [frame_simps, simp]:
  "session (copy_body b c) = session c" "state (copy_body b c) = state c"
  "username (copy_body b c) = username c" "errorCount (copy_body b c) = errorCount c"
  "isTLS (copy_body b c) = isTLS c" "startTime (copy_body b c) = startTime c"
  "hijacked (copy_body b c) = hijacked c" "blocked (copy_body b c) = blocked c"
  "trace (copy_body b c) = trace c @ [EvBodyClose]" "cmdCtx (copy_body b c) = cmdCtx c" "reader (copy_body b c) = reader c"
  by (auto simp: copy_body_def Let_def split: prod.splits option.splits body_end.splits)

lemma copy_body_writes_to: "writes_to (writer c, netConn c) (writer (copy_body b c), netConn (copy_body b c))"
proof -
  let ?r = "io_Copy bufw_Write (body_chunks b) (newDotStuffWriter (writer c, netConn c))"
  have "writes_to (writer c, netConn c) (dsw_w (snd ?r))"
    "\<And>d. writes_to (dsw_w d) (dsw_w (snd (dsw_Close bufw_Write d)))"
    using conn_steady.io_Copy_rel [of "newDotStuffWriter (writer c, netConn c)" "body_chunks b"]
      conn_steady.dsw_Close_rel
    by (auto simp: newDotStuffWriter_def)
  then show ?thesis
    by (cases ?r) (auto simp: copy_body_def case_prod_beta Let_def intro: writes_to_trans
        split: option.splits body_end.splits)
qed

lemma copy_body_pend_size [simp]: "pend_size (copy_body b c) = pend_size c"
  using writes_to_keeps(2,3) [OF copy_body_writes_to [of c b]]
  by (simp add: pend_size_def net_size_def tls_size_def)

lemma formed_copy_body [simp]: "formed c \<Longrightarrow> formed (copy_body b c)"
  by (rule formed_writes [OF _ copy_body_writes_to]) simp_all

lemma on_time_copy_body [simp]: "on_time srv c d \<Longrightarrow> on_time srv c (copy_body b d)"
  by (rule on_time_writes [OF _ copy_body_writes_to]) simp_all

text \<open>
  A command that reaches the session makes one call and answers it: \<open>called srv k c c'\<close>. Whatever
  the session returned, an error included, the error count, the state, the TLS flag and the input are
  as before.
\<close>

definition called :: "'s Server \<Rightarrow> call \<Rightarrow> 's Conn \<Rightarrow> 's Conn \<Rightarrow> bool" where
  "called srv k c c' \<longleftrightarrow>
     (\<exists>r es. trace c' = trace c @ EvCall k r # es \<and> set es \<subseteq> {EvBodyClose}
        \<and> effect srv k r (session c) (session c'))
     \<and> pend_size c' = pend_size c \<and> errorCount c' = errorCount c \<and> startTime c' = startTime c
     \<and> isTLS c' = isTLS c \<and> state c' = state c \<and> username c' = username c \<and> reader c' = reader c
     \<and> hijacked c' = hijacked c \<and> blocked c' = blocked c \<and> on_time srv c c' \<and> (formed c \<longrightarrow> formed c')"

lemma called_handles:
  assumes "called srv k c c'" "\<not> is_login k" "is_transaction k \<Longrightarrow> state c = stateTransaction" "q \<or> k \<noteq> CQuit"
    and "wf_call k"
  shows "handles srv q c c'"
proof -
  obtain r es where tr: "trace c' = trace c @ EvCall k r # es" and es: "set es \<subseteq> {EvBodyClose}"
    and ef: "effect srv k r (session c) (session c')"
    using assms(1) by (auto simp: called_def)
  have "filter is_call es = []" "filter failed_login es = []" "\<not> list_ex login_ok es"
    "list_all (permitted srv c) es" "list_all (Not \<circ> is_quit) es" "EvTLS True \<notin> set es" "list_all wf_event es"
    using es by (auto simp: filter_empty_conv list_ex_iff list_all_iff)
  with tr ef assms session_run_bodies [OF es, of srv] show ?thesis by (auto simp: handles_def called_def)
qed

lemma called_invoke:
  assumes "invoke srv k m c = (r, c')" and "\<And>q s'. result_of m q (session c) s' \<Longrightarrow> effect srv k q (session c) s'"
  shows "called srv k c c'"
proof -
  have "effect srv k (returned r) (session c) (session c')"
    by (rule assms(2)) (use assms(1) in \<open>auto simp: invoke_def result_of_def split: prod.splits\<close>)
  then show ?thesis using assms(1) by (auto simp: called_def invoke_def split: prod.splits)
qed

lemma called_then:
  "called srv k c c' \<Longrightarrow> called srv k c (write_string s c')" "called srv k c c' \<Longrightarrow> called srv k c (ok msg c')"
  "called srv k c c' \<Longrightarrow> called srv k c (sessionError srv' e c')" "called srv k c c' \<Longrightarrow> called srv k c (panic c')"
  "called srv k c c' \<Longrightarrow> called srv k c (snd (flush c'))"
  by (simp_all add: called_def)

lemma called_copy_body:
  assumes "called srv k c c'" shows "called srv k c (copy_body b c')"
proof -
  obtain r es where "trace c' = trace c @ EvCall k r # es" "set es \<subseteq> {EvBodyClose}"
    and ef: "effect srv k r (session c) (session c')"
    using assms by (auto simp: called_def)
  then have "trace (copy_body b c') = trace c @ EvCall k r # (es @ [EvBodyClose])"
    "set (es @ [EvBodyClose]) \<subseteq> {EvBodyClose}" by simp_all
  then have "\<exists>r es. trace (copy_body b c') = trace c @ EvCall k r # es \<and> set es \<subseteq> {EvBodyClose}
      \<and> effect srv k r (session c) (session c')"
    using ef by blast
  with assms show ?thesis unfolding called_def by simp
qed

lemma called_fold: "(\<And>x c'. called srv k c c' \<Longrightarrow> called srv k c (g x c')) \<Longrightarrow> called srv k c c' \<Longrightarrow> called srv k c (fold g xs c')"
  by (induction xs arbitrary: c') auto

lemmas called_intros = called_then called_copy_body called_fold

lemma called_stat: "called srv CStat c (handleStat srv c)"
  by (auto simp: handleStat_def elim!: called_invoke intro!: called_intros split: outcome.split prod.split)

lemma called_rset: "called srv CRset c (handleRset srv c)"
  by (auto simp: handleRset_def elim!: called_invoke intro!: called_intros split: outcome.split prod.split)

lemma called_noop: "called srv CNoop c (handleNoop srv c)"
  by (auto simp: handleNoop_def elim!: called_invoke intro!: called_intros split: outcome.split prod.split)

lemma called_quit: "called srv CQuit c (handleQuit srv c)"
  by (auto simp: handleQuit_def elim!: called_invoke intro!: called_intros split: outcome.split prod.split)

lemma called_dele: "parseMsgNum args = Inr msg \<Longrightarrow> called srv (CDele msg) c (handleDele srv args c)"
  by (auto simp: handleDele_def elim!: called_invoke intro!: called_intros split: outcome.split prod.split)

lemma called_list: "parseOptionalMsgNum args = Inr msg \<Longrightarrow> called srv (CList msg) c (handleList srv args c)"
  by (auto simp: handleList_def Let_def elim!: called_invoke intro!: called_intros
      split: outcome.split prod.split list.split)

lemma called_uidl: "parseOptionalMsgNum args = Inr msg \<Longrightarrow> called srv (CUidl msg) c (handleUidl srv args c)"
  by (auto simp: handleUidl_def Let_def elim!: called_invoke intro!: called_intros
      split: outcome.split prod.split list.split)

lemma called_retr: "parseMsgNum args = Inr msg \<Longrightarrow> called srv (CRetr msg) c (handleRetr srv args c)"
  by (auto simp: handleRetr_def Let_def elim!: called_invoke intro!: called_intros
      split: outcome.split prod.split option.split)

lemma called_top:
  "parseMsgNum [a] = Inr msg \<Longrightarrow> parseInt l = Inr n \<Longrightarrow> 0 \<le> n \<Longrightarrow>
     called srv (CTop msg n) c (handleTop srv (a # l # rest) c)"
  by (auto simp: handleTop_def Let_def elim!: called_invoke intro!: called_intros
      split: outcome.split prod.split option.split)

lemma called_utf8: "s_UTF8 (meths srv) = Some u \<Longrightarrow> called srv CEnableUTF8 c (handleUTF8 srv c)"
  by (auto simp: handleUTF8_def elim!: called_invoke intro!: called_intros split: outcome.split prod.split)

lemma called_lang:
  "s_Lang (meths srv) = Some u \<Longrightarrow> called srv CListLanguages c (handleLang srv [] c)"
  "s_Lang (meths srv) = Some u \<Longrightarrow> called srv (CSetLanguage a) c (handleLang srv (a # as) c)"
  by (auto simp: handleLang_def Let_def elim!: called_invoke intro!: called_intros
      split: outcome.split prod.split)

text \<open>The contract of the commands that reach the session, from what they call.\<close>

lemma handles_stat: "state c = stateTransaction \<Longrightarrow> handles srv q c (handleStat srv c)"
  by (rule called_handles [OF called_stat]) simp_all

lemma handles_rset: "state c = stateTransaction \<Longrightarrow> handles srv q c (handleRset srv c)"
  by (rule called_handles [OF called_rset]) simp_all

lemma handles_noop: "state c = stateTransaction \<Longrightarrow> handles srv q c (handleNoop srv c)"
  by (rule called_handles [OF called_noop]) simp_all

lemma handles_quit: "state c = stateTransaction \<Longrightarrow> handles srv True c (handleQuit srv c)"
  by (rule called_handles [OF called_quit]) simp_all

lemma handles_dele: "state c = stateTransaction \<Longrightarrow> handles srv q c (handleDele srv args c)"
  by (cases "parseMsgNum args")
    (simp add: handleDele_def handles_clientError, rule called_handles [OF called_dele], use parseMsgNum_wf in auto)

lemma handles_list: "state c = stateTransaction \<Longrightarrow> handles srv q c (handleList srv args c)"
  by (cases "parseOptionalMsgNum args")
    (simp add: handleList_def handles_clientError, rule called_handles [OF called_list], use parseOptionalMsgNum_wf in auto)

lemma handles_uidl: "state c = stateTransaction \<Longrightarrow> handles srv q c (handleUidl srv args c)"
  by (cases "parseOptionalMsgNum args")
    (simp add: handleUidl_def handles_clientError, rule called_handles [OF called_uidl], use parseOptionalMsgNum_wf in auto)

lemma handles_retr: "state c = stateTransaction \<Longrightarrow> handles srv q c (handleRetr srv args c)"
  by (cases "parseMsgNum args")
    (simp add: handleRetr_def handles_clientError, rule called_handles [OF called_retr], use parseMsgNum_wf in auto)

lemma handles_top:
  assumes "state c = stateTransaction"
  shows "handles srv q c (handleTop srv args c)"
proof (cases "\<exists>a l rest msg n. args = a # l # rest \<and> parseMsgNum [a] = Inr msg \<and> parseInt l = Inr n \<and> 0 \<le> n")
  case True
  then obtain a l rest msg n where "args = a # l # rest" "parseMsgNum [a] = Inr msg" "parseInt l = Inr n" "0 \<le> n"
    by blast
  then show ?thesis
    using assms parseMsgNum_wf [of "[a]" msg] parseInt_Inr_iff [of l n]
    by (auto intro!: called_handles [OF called_top])
next
  case False
  then have "\<exists>msg. handleTop srv args c = clientError srv msg c"
    by (auto simp: handleTop_def split: list.splits sum.splits)
  then show ?thesis by (auto simp: handles_clientError)
qed

lemma handles_utf8: "handles srv q c (handleUTF8 srv c)"
  by (cases "s_UTF8 (meths srv)")
    (simp add: handleUTF8_def handles_clientError, rule called_handles [OF called_utf8], simp_all)

lemma handles_lang: "handles srv q c (handleLang srv args c)"
proof (cases "s_Lang (meths srv)")
  case None
  then show ?thesis by (simp add: handleLang_def handles_clientError)
next
  case (Some lang)
  then show ?thesis
    by (cases args) (auto intro: called_handles [OF called_lang(1)] called_handles [OF called_lang(2)])
qed

text \<open>A step that only writes: nothing but the writer and what has gone out changes.\<close>

definition only_writes :: "'s Conn \<Rightarrow> 's Conn \<Rightarrow> bool" where
  "only_writes c c' \<longleftrightarrow>
     (\<exists>w n. c' = c\<lparr>writer := w, netConn := n\<rparr> \<and> writes_to (writer c, netConn c) (w, n))"

lemma only_writes_refl: "only_writes c c"
  unfolding only_writes_def by (intro exI [of _ "writer c"] exI [of _ "netConn c"]) simp

lemma only_writes_trans:
  assumes "only_writes a b" "only_writes b c"
  shows "only_writes a c"
proof -
  obtain w n where b: "b = a\<lparr>writer := w, netConn := n\<rparr>" "writes_to (writer a, netConn a) (w, n)"
    using assms(1) by (auto simp: only_writes_def)
  obtain v m where c: "c = b\<lparr>writer := v, netConn := m\<rparr>" "writes_to (writer b, netConn b) (v, m)"
    using assms(2) by (auto simp: only_writes_def)
  have "writes_to (writer a, netConn a) (v, m)" using b c(2) by (auto intro: writes_to_trans)
  then show ?thesis
    unfolding only_writes_def b(1) c(1) by (intro exI [of _ v] exI [of _ m]) simp
qed

lemma only_writes_handles:
  assumes "only_writes c c'"
  shows "handles srv q c c'"
proof -
  obtain w n where c': "c' = c\<lparr>writer := w, netConn := n\<rparr>" and wt: "writes_to (writer c, netConn c) (w, n)"
    using assms by (auto simp: only_writes_def)
  have "on_time srv c c'" by (rule on_time_writes [of srv c c]) (simp_all add: c' wt)
  moreover have "formed c \<Longrightarrow> formed c'" by (rule formed_writes [of c]) (simp_all add: c' wt)
  ultimately show ?thesis
    using writes_to_keeps [OF wt] by (simp add: c' handles_simps pend_size_def net_size_def tls_size_def)
qed

lemma only_writes_string: "only_writes c (write_string s c)"
  by (auto simp: only_writes_def write_string_alt bufw_Write_steady
      intro!: exI [of _ "fst (snd (bufw_Write (writer c, netConn c) s))"] exI [of _ "snd (snd (bufw_Write (writer c, netConn c) s))"])

text \<open>Rules that follow a block of writes statement by statement.\<close>

lemma only_writes_then:
  "only_writes a c \<Longrightarrow> only_writes a (write_string s c)"
  "only_writes a x \<Longrightarrow> only_writes a y \<Longrightarrow> only_writes a (if b then x else y)"
  "only_writes a t \<Longrightarrow> (\<And>c. only_writes a c \<Longrightarrow> only_writes a (f c)) \<Longrightarrow> only_writes a (let c = t in f c)"
  "(\<And>v. only_writes a (g v)) \<Longrightarrow> only_writes a (let v = (e :: bool) in g v)"
  "(\<And>v. only_writes a (h v)) \<Longrightarrow> only_writes a (let v = (l :: bytes list) in h v)"
  "only_writes a x \<Longrightarrow> (\<And>v. only_writes a (k v)) \<Longrightarrow>
     only_writes a (case p of None \<Rightarrow> x | Some v \<Rightarrow> k v)"
  by (auto simp: Let_def intro: only_writes_trans [OF _ only_writes_string] split: option.split)

lemma only_writes_cap: "only_writes a c \<Longrightarrow> only_writes a (writeCap srv name params c)"
  unfolding writeCap_def by (intro only_writes_then)

lemma only_writes_fold:
  assumes "\<And>x c. only_writes a c \<Longrightarrow> only_writes a (g x c)"
  shows "only_writes a c \<Longrightarrow> only_writes a (fold g xs c)"
  by (induction xs arbitrary: c) (auto intro: assms)

lemma only_writes_capa: "only_writes c (handleCapa srv c)"
  unfolding handleCapa_def
  by (intro only_writes_then only_writes_cap only_writes_fold only_writes_refl)

lemmas handles_capa = only_writes_handles [OF only_writes_capa]

lemma handles_user: "handles srv q c (handleUser srv args c)"
  by (auto simp: handles_simps handleUser_def split: list.splits)

section \<open>Authentication\<close>

lemma Hijack_frame [simp]:
  "session (snd (Hijack c)) = session c" "state (snd (Hijack c)) = state c"
  "username (snd (Hijack c)) = username c" "errorCount (snd (Hijack c)) = errorCount c"
  "isTLS (snd (Hijack c)) = isTLS c" "startTime (snd (Hijack c)) = startTime c"
  "closePending (snd (Hijack c)) = closePending c" "panicking (snd (Hijack c)) = panicking c"
  "blocked (snd (Hijack c)) = blocked c" "trace (snd (Hijack c)) = trace c"
  "reader (snd (Hijack c)) = reader c" "cmdCtx (snd (Hijack c)) = cmdCtx c" "lastErr (snd (Hijack c)) = lastErr c"
  "pend_size (snd (Hijack c)) = pend_size c"
  by (simp_all add: Hijack_def case_prod_beta split: option.split)

lemma formed_Hijack [simp]: "formed c \<Longrightarrow> formed (snd (Hijack c))"
  by (simp add: Hijack_def case_prod_beta split: option.split)

lemma on_time_Hijack [simp]: "on_time srv c d \<Longrightarrow> on_time srv c (snd (Hijack d))"
  by (simp add: Hijack_def case_prod_beta split: option.split)

lemma invoke_login_frame [simp]:
  "state (snd (invoke_login srv k m c)) = state c" "username (snd (invoke_login srv k m c)) = username c"
  "errorCount (snd (invoke_login srv k m c)) = errorCount c" "isTLS (snd (invoke_login srv k m c)) = isTLS c"
  "startTime (snd (invoke_login srv k m c)) = startTime c"
  "closePending (snd (invoke_login srv k m c)) = closePending c"
  "panicking (snd (invoke_login srv k m c)) = panicking c"
  "blocked (snd (invoke_login srv k m c)) = blocked c" "reader (snd (invoke_login srv k m c)) = reader c"
  "trace (snd (invoke_login srv k m c)) = trace c @ [EvCall k (returned (fst (invoke_login srv k m c)))]"
  "pend_size (snd (invoke_login srv k m c)) = pend_size c"
  by (simp_all add: invoke_login_def case_prod_beta Let_def split: login_step.split)

lemma formed_invoke_login [simp]: "formed c \<Longrightarrow> formed (snd (invoke_login srv k m c))"
  by (simp add: invoke_login_def case_prod_beta Let_def split: login_step.split)

lemma on_time_invoke_login [simp]:
  "on_time srv c d \<Longrightarrow> startTime d = startTime c \<Longrightarrow> on_time srv c (snd (invoke_login srv k m d))"
  by (simp add: invoke_login_def case_prod_beta Let_def split: login_step.split)

lemma invoke_login_result:
  "invoke_login srv k m c = (r, c') \<Longrightarrow> login_result (m (session c)) (returned r) (session c')"
  by (auto simp: invoke_login_def login_result_def Let_def case_prod_beta split: login_step.splits)

lemma handles_login:
  assumes "is_login k" "\<not> is_transaction k" "k \<noteq> CQuit" "state c = stateAuthorization" "authAllowed srv c"
    and wf: "formed c \<Longrightarrow> wf_call k" and ef: "\<And>q s'. login_result (m (session c)) q s' \<Longrightarrow> effect srv k q (session c) s'"
  shows "handles srv q c (after_login srv (invoke_login srv k m c))"
proof -
  obtain r c' where rc: "invoke_login srv k m c = (r, c')" by fastforce
  then have c': "state c' = state c" "errorCount c' = errorCount c" "isTLS c' = isTLS c"
    "startTime c' = startTime c" "blocked c' = blocked c" "trace c' = trace c @ [EvCall k (returned r)]"
    "on_time srv c c'" "pend_size c' = pend_size c" "formed c \<Longrightarrow> formed c'"
    using invoke_login_frame [of srv k m c] on_time_invoke_login [of srv c c k m] formed_invoke_login [of c srv k m] by auto
  show ?thesis
    using assms(1-5) c' wf formed_nonneg [of c] ef [OF invoke_login_result [OF rc]] unfolding rc by (cases r) (auto simp: handles_simps after_login_def)
qed

lemma handles_pass: "state c = stateAuthorization \<Longrightarrow> handles srv q c (handlePass srv c)"
  using handles_login [of "CLogin (username c) (rawArg c)" c srv "s_Login (meths srv) (username c) (rawArg c)" q]
  by (simp add: handlePass_def handles_clientError formed_def)

lemma handles_auth_response:
  assumes "state c = stateAuthorization" "authAllowed srv c" "s_SASL (meths srv) = Some sasl"
  shows "handles srv q c (auth_response srv sasl encoded c)"
proof (cases "decodeSASLPlain encoded")
  case (Inl e)
  then show ?thesis by (simp add: auth_response_def handles_simps)
next
  case (Inr iup)
  obtain i u p where "iup = (i, u, p)" by (cases iup)
  with Inr assms decodeSASLPlain_Inr [of encoded i u p] handles_login [of "CAuthenticatePlain i u p" c srv] show ?thesis
    by (auto simp: auth_response_def handles_simps)
qed

text \<open>Reading a line uses up input; a line that is returned uses up at least one byte.\<close>

lemma readLine_loop_size:
  "readLine_loop m line buf n = (r, buf', n') \<Longrightarrow>
     length buf' + net_size n' \<le> length buf + net_size n
     \<and> ((\<exists>l. r = Some (Inr l)) \<longrightarrow> length buf' + net_size n' < length buf + net_size n)
     \<and> tls_peer n' = tls_peer n \<and> lag n' = lag n \<and> (length buf \<le> bufsize \<longrightarrow> length buf' \<le> bufsize)"
proof (induction m line buf n rule: readLine_loop.induct)
  case (1 m line buf n)
  obtain q b k where rl: "ReadLine buf n = (q, b, k)" by (metis prod_cases3)
  note sz = ReadLine_size(1) [OF rl] ReadLine_size(2) [OF rl] ReadLine_buffer [OF rl]
  have tp: "tls_peer k = tls_peer n" "lag k = lag n"
    using ReadLine_same_peer [OF rl] by (simp_all add: same_peer_def lag_def)
  show ?case
  proof (cases q)
    case (LLine chunk pre)
    show ?thesis
    proof (cases "pre \<and> int (length (line @ chunk)) \<le> m")
      case True
      then have "readLine_loop m (line @ chunk) b k = (r, buf', n')"
        using "1.prems" rl LLine by (simp add: readLine_loop.simps [of m line buf n])
      with "1.IH" [OF rl [symmetric] LLine refl refl] True
      show ?thesis using sz LLine tp by fastforce
    next
      case False
      then show ?thesis
        using "1.prems" rl LLine sz(2) [OF LLine] sz(3) tp
        by (auto simp: readLine_loop.simps [of m line buf n] Let_def split: if_splits)
    qed
  qed (use "1.prems" rl sz tp in \<open>auto simp: readLine_loop.simps [of m line buf n]\<close>)
qed

lemma readLine_frame [frame_simps, simp]:
  "session (snd (readLine srv c)) = session c" "state (snd (readLine srv c)) = state c"
  "username (snd (readLine srv c)) = username c" "errorCount (snd (readLine srv c)) = errorCount c"
  "isTLS (snd (readLine srv c)) = isTLS c" "startTime (snd (readLine srv c)) = startTime c"
  "hijacked (snd (readLine srv c)) = hijacked c" "closePending (snd (readLine srv c)) = closePending c"
  "lastErr (snd (readLine srv c)) = lastErr c" "panicking (snd (readLine srv c)) = panicking c"
  "blocked (snd (readLine srv c)) = blocked c" "trace (snd (readLine srv c)) = trace c"
  "writer (snd (readLine srv c)) = writer c"
  by (simp_all add: readLine_def case_prod_beta)

lemma readLine_pend_size:
  "pend_size (snd (readLine srv c)) \<le> pend_size c"
  "fst (readLine srv c) = Some (Inr l) \<Longrightarrow> pend_size (snd (readLine srv c)) < pend_size c"
proof -
  obtain r b n where rl: "readLine_loop (MaxLineLength (opts srv)) [] (reader c) (netConn c) = (r, b, n)"
    by (metis prod_cases3)
  show "pend_size (snd (readLine srv c)) \<le> pend_size c"
    and "fst (readLine srv c) = Some (Inr l) \<Longrightarrow> pend_size (snd (readLine srv c)) < pend_size c"
    using readLine_loop_size [OF rl] by (auto simp: readLine_def rl pend_size_def tls_size_def)
qed

definition quiet :: "'s Server \<Rightarrow> 's Conn \<Rightarrow> 's Conn \<Rightarrow> bool" where
  "quiet srv c c1 \<longleftrightarrow>
     pend_size c1 \<le> pend_size c \<and> errorCount c1 = errorCount c \<and> startTime c1 = startTime c
     \<and> isTLS c1 = isTLS c \<and> trace c1 = trace c \<and> state c1 = state c \<and> session c1 = session c
     \<and> (IdleTimeout (opts srv) > 0 \<or> AbsoluteSessionTimeout (opts srv) > 0 \<longrightarrow> blocked c1 \<longrightarrow> blocked c)
     \<and> on_time srv c c1 \<and> (formed c \<longrightarrow> formed c1)"

lemma handles_mono:
  assumes "handles srv q c1 c'" "quiet srv c c1"
  shows "handles srv q c c'"
proof -
  have eqs: "errorCount c1 = errorCount c" "startTime c1 = startTime c" "isTLS c1 = isTLS c"
    "trace c1 = trace c" "state c1 = state c" "session c1 = session c"
    using assms(2) by (simp_all add: quiet_def)
  have "permitted srv c1 e = permitted srv c e" for e
    using eqs by (cases e) (simp_all add: authAllowed_def)
  then have pm: "permitted srv c1 = permitted srv c" by (rule ext)
  have ne: "new_events c1 c' = new_events c c'" by (simp add: new_events_def eqs)
  from assms(1) have h: "pend_size c' \<le> pend_size c1"
    "IdleTimeout (opts srv) > 0 \<or> AbsoluteSessionTimeout (opts srv) > 0 \<longrightarrow> blocked c' \<longrightarrow> blocked c1"
    "on_time srv c1 c'" "formed c1 \<longrightarrow> formed c' \<and> list_all wf_event (new_events c c')"
    unfolding ne [symmetric] handles_def eqs by blast+
  from assms(2) have k: "pend_size c1 \<le> pend_size c"
    "IdleTimeout (opts srv) > 0 \<or> AbsoluteSessionTimeout (opts srv) > 0 \<longrightarrow> blocked c1 \<longrightarrow> blocked c"
    "on_time srv c c1" "formed c \<longrightarrow> formed c1"
    unfolding quiet_def by blast+
  have "pend_size c' \<le> pend_size c" using h(1) k(1) by linarith
  moreover have "IdleTimeout (opts srv) > 0 \<or> AbsoluteSessionTimeout (opts srv) > 0 \<longrightarrow> blocked c' \<longrightarrow> blocked c"
    using h(2) k(2) by blast
  moreover have "on_time srv c c'" using on_time_trans [OF k(3) h(3)] eqs(2) by simp
  moreover have "formed c \<longrightarrow> formed c' \<and> list_all wf_event (new_events c c')" using h(4) k(4) by blast
  ultimately show ?thesis
    using assms(1) unfolding handles_def eqs pm ne by blast
qed

lemma handles_refl: "handles srv q c c"
  by (simp add: handles_simps)

lemma handles_quiet: "quiet srv c c1 \<Longrightarrow> handles srv q c c1"
  by (rule handles_mono [OF handles_refl])

text \<open>A read under the armed deadline: it does not block, and it ends in time.\<close>

lemma readLine_loop_deadline:
  "readLine_loop m line buf n = (r, buf', n') \<Longrightarrow> rdeadline n = Some d \<Longrightarrow>
     r \<noteq> None \<and> now n' \<le> max (now n) d"
proof (induction m line buf n rule: readLine_loop.induct)
  case (1 m line buf n)
  obtain q b k where rl: "ReadLine buf n = (q, b, k)" by (metis prod_cases3)
  note dl = ReadLine_deadline [OF rl "1.prems"(2)]
  have rd: "rdeadline k = Some d"
    using ReadLine_same_peer [OF rl] "1.prems"(2) by (simp add: same_peer_def)
  show ?case
  proof (cases "\<exists>chunk. q = LLine chunk True \<and> int (length (line @ chunk)) \<le> m")
    case True
    then obtain chunk where q: "q = LLine chunk True" "int (length (line @ chunk)) \<le> m" by blast
    then have "readLine_loop m (line @ chunk) b k = (r, buf', n')"
      using "1.prems" rl by (simp add: readLine_loop.simps [of m line buf n])
    with "1.IH" [OF rl [symmetric] q(1) refl refl] q(2) rd dl show ?thesis by fastforce
  next
    case False
    with "1.prems" rl dl show ?thesis
      by (auto simp: readLine_loop.simps [of m line buf n] Let_def split: line_result.splits if_splits)
  qed
qed

lemma nextReadDeadline_set:
  "IdleTimeout (opts srv) > 0 \<or> AbsoluteSessionTimeout (opts srv) > 0 \<Longrightarrow> nextReadDeadline srv c \<noteq> None"
  by (auto simp: nextReadDeadline_def Let_def)

lemma nextReadDeadline_le:
  "nextReadDeadline srv c = Some d \<Longrightarrow> AbsoluteSessionTimeout (opts srv) > 0 \<Longrightarrow>
     d \<le> startTime c + AbsoluteSessionTimeout (opts srv)"
  by (auto simp: nextReadDeadline_def Let_def split: if_splits)

lemma armed_read:
  assumes rl: "readLine srv (arm_deadline srv c) = (r, c')"
  shows "quiet srv c c'" and "IdleTimeout (opts srv) > 0 \<or> AbsoluteSessionTimeout (opts srv) > 0 \<Longrightarrow> r \<noteq> None"
proof -
  obtain b n where lp: "readLine_loop (MaxLineLength (opts srv)) [] (reader c) (netConn (arm_deadline srv c)) = (r, b, n)"
    and c': "c' = (arm_deadline srv c)\<lparr>reader := b, netConn := n\<rparr>"
    using rl by (auto simp: readLine_def split: prod.splits)
  have arm: "rdeadline (netConn (arm_deadline srv c)) = Some d" if "nextReadDeadline srv c = Some d" for d
    using that by (simp add: arm_deadline_def)
  have late: "now n \<le> max (now (netConn c)) d" "r \<noteq> None" if "nextReadDeadline srv c = Some d" for d
    using readLine_loop_deadline [OF lp arm [OF that]] by simp_all
  show "IdleTimeout (opts srv) > 0 \<or> AbsoluteSessionTimeout (opts srv) > 0 \<Longrightarrow> r \<noteq> None"
    using late nextReadDeadline_set by blast
  have "now n \<le> max (now (netConn c)) (startTime c + AbsoluteSessionTimeout (opts srv))"
    if pos: "AbsoluteSessionTimeout (opts srv) > 0"
  proof -
    obtain d where d: "nextReadDeadline srv c = Some d" using nextReadDeadline_set pos by blast
    show ?thesis using late(1) [OF d] nextReadDeadline_le [OF d pos] by linarith
  qed
  then have "on_time srv c c'"
    using on_time_wait [of srv c c c'] readLine_loop_size [OF lp] by (simp add: c')
  moreover have "pend_size c' \<le> pend_size c"
    using readLine_pend_size(1) [of srv "arm_deadline srv c"] rl by simp
  moreover have "formed c \<longrightarrow> formed c'"
    using readLine_loop_size [OF lp] by (simp add: c' formed_def)
  ultimately show "quiet srv c c'" by (simp add: quiet_def c')
qed

lemma handles_auth_read:
  assumes "state c = stateAuthorization" "authAllowed srv c" "s_SASL (meths srv) = Some sasl"
  shows "handles srv q c
     (let c = snd (flush (write_string (''+ '' @ CRLF) c));
          c = arm_deadline srv c;
          (r, c) = readLine srv c;
          c = SetReadDeadline None c
      in case r of
           None \<Rightarrow> c\<lparr>blocked := True\<rparr>
         | Some (Inl readErr) \<Rightarrow> c\<lparr>closePending := True\<rparr>
         | Some (Inr line) \<Rightarrow> auth_response srv sasl (TrimSpace line) c)"
proof -
  let ?c0 = "snd (flush (write_string (''+ '' @ CRLF) c))"
  obtain r c1 where rl: "readLine srv (arm_deadline srv ?c0) = (r, c1)" by fastforce
  let ?c2 = "SetReadDeadline None c1"
  have "on_time srv c c1"
    using on_time_trans [of srv c ?c0 c1] armed_read(1) [OF rl] by (simp add: quiet_def)
  then have q: "quiet srv c ?c2"
    using armed_read(1) [OF rl] by (simp add: quiet_def)
  show ?thesis
  proof (cases "\<exists>line. r = Some (Inr line)")
    case True
    have "handles srv q ?c2 (auth_response srv sasl l ?c2)" for l
      using assms q by (intro handles_auth_response) (simp_all add: authAllowed_def quiet_def)
    then have "handles srv q c (auth_response srv sasl l ?c2)" for l
      using q by (rule handles_mono)
    with True rl show ?thesis by (auto simp: Let_def)
  next
    case False
    have "quiet srv c (?c2\<lparr>closePending := True\<rparr>)" using q by (simp add: quiet_def)
    moreover have "quiet srv c (?c2\<lparr>blocked := True\<rparr>)" if "r = None"
      using q armed_read(2) [OF rl] that by (auto simp: quiet_def)
    ultimately show ?thesis
      using False rl by (auto simp: Let_def intro!: handles_quiet split: option.split sum.split)
  qed
qed

lemma handles_auth:
  assumes "state c = stateAuthorization"
  shows "handles srv q c (handleAuth srv args c)"
proof (cases "authAllowed srv c \<and> s_SASL (meths srv) \<noteq> None")
  case False
  then show ?thesis by (auto simp: handleAuth_def handles_clientError split: option.split)
next
  case True
  then obtain sasl where sasl: "s_SASL (meths srv) = Some sasl" by blast
  have list: "handles srv q c
     (let mechs = AuthenticateMechanisms sasl (session c);
          c = write_string (''+OK'' @ CRLF) c;
          c = fold (\<lambda>m c. write_string CRLF (write_string m c)) mechs c
      in write_string (DOT # CRLF) c)"
    by (intro only_writes_handles only_writes_then only_writes_fold only_writes_refl)
  show ?thesis
    unfolding handleAuth_def
    using True sasl list assms
      handles_auth_read [of c srv sasl q] handles_auth_response [of c srv sasl q]
    by (cases args; cases "tl args") (simp_all add: handles_clientError)
qed

lemma HandshakeContext_size:
  "HandshakeContext ctx n = (b, n') \<Longrightarrow> net_size n' + tls_size n' \<le> net_size n + tls_size n"
  by (auto simp: HandshakeContext_def net_size_def tls_size_def Let_def
      split: option.splits prod.splits if_splits)

lemma HandshakeContext_peer:
  "HandshakeContext ctx n = (b, n') \<Longrightarrow>
     lag n' = lag n \<and> (if b then tls_peer n \<noteq> None \<and> tls_peer n' = None else tls_peer n' = tls_peer n)"
  by (auto simp: HandshakeContext_def lag_def Let_def split: option.splits prod.splits if_splits)

lemma HandshakeContext_deadline:
  assumes "HandshakeContext ctx n = (b, n')" "rdeadline n = Some d"
  shows "now n' \<le> max (now n) d"
proof -
  obtain e where e: "earlier (Some d) ctx = Some e" by (cases ctx) auto
  with assms earlier_le [OF e] show ?thesis
    by (auto simp: HandshakeContext_def Let_def split: option.splits prod.splits if_splits)
qed

lemma handles_stls: "handles srv q c (handleSTLS srv c)"
proof -
  let ?w = "snd (flush (ok ''Begin TLS negotiation'' c))"
  define c0 where "c0 = (case nextReadDeadline srv ?w of None \<Rightarrow> ?w | Some d \<Rightarrow> SetDeadline (Some d) ?w)"
  have c0: "pend_size c0 = pend_size c" "startTime c0 = startTime c" "isTLS c0 = isTLS c" "trace c0 = trace c"
    "errorCount c0 = errorCount c" "state c0 = state c" "session c0 = session c" "blocked c0 = blocked c"
    "panicking c0 = panicking c" "on_time srv c c0" "formed c \<Longrightarrow> formed c0"
    by (simp_all add: c0_def split: option.split)
  obtain b n where hs: "HandshakeContext (cmdCtx c) (netConn c0) = (b, n)" by fastforce
  define c1 where "c1 = add_event (EvTLS b) (SetDeadline None (c0\<lparr>netConn := n\<rparr>))"
  have sz: "net_size n + tls_size n \<le> net_size (netConn c0) + tls_size (netConn c0)"
    by (rule HandshakeContext_size [OF hs])
  have "pend_size c1 \<le> pend_size c0" "pend_size (c1\<lparr>reader := []\<rparr>) \<le> pend_size c0"
    using sz by (simp_all add: c1_def pend_size_def SetDeadline_def net_size_def tls_size_def)
  then have size: "pend_size c1 \<le> pend_size c" "pend_size (c1\<lparr>reader := []\<rparr>) \<le> pend_size c"
    by (simp_all only: c0)
  have "now n \<le> max (now (netConn c0)) (startTime c0 + AbsoluteSessionTimeout (opts srv))"
    if pos: "AbsoluteSessionTimeout (opts srv) > 0"
  proof -
    obtain d where d: "nextReadDeadline srv ?w = Some d" using nextReadDeadline_set pos by blast
    then have "rdeadline (netConn c0) = Some d" by (simp add: c0_def)
    from HandshakeContext_deadline [OF hs this] nextReadDeadline_le [OF d pos] show ?thesis
      by (simp add: c0)
  qed
  note late = this
  note peer = HandshakeContext_peer [OF hs]
  have t1: "on_time srv c c1" if "\<not> b"
    using on_time_wait [of srv c c0 c1] c0 late peer that by (simp add: c1_def)
  let ?c2 = "c1\<lparr>reader := [], writer := newWriter srv, isTLS := True, username := []\<rparr>"
  have "timed srv ?c2 \<and> credit ?c2 \<le> credit c0" if "timed srv c0" "b"
    using that peer by (simp add: timed_def credit_def room_def newWriter_def NewWriter_def c1_def)
  then have t2: "on_time srv c ?c2" if "b"
    using on_time_spend [of srv c c0 ?c2] c0 late peer that by (simp add: c1_def)
  have fm: "formed c \<Longrightarrow> formed ?c2" "formed c \<Longrightarrow> formed c1"
    using c0 by (simp_all add: formed_def c1_def newWriter_def NewWriter_def bufsize_def)
  have "handleSTLS srv c = (if b then c1\<lparr>reader := [], writer := newWriter srv, isTLS := True, username := []\<rparr>
      else c1\<lparr>closePending := True\<rparr>)"
    if "\<not> isTLS c" "TLSConfig (opts srv)" "state c = stateAuthorization" "reader c = []"
    using that by (simp add: handleSTLS_def Let_def c1_def c0_def [symmetric] hs)
  moreover have "handles srv q c (c1\<lparr>reader := [], writer := newWriter srv, isTLS := True, username := []\<rparr>)"
    if "b" "\<not> isTLS c" "state c = stateAuthorization"
    using that c0 size t2 fm by (simp add: handles_simps c1_def)
  moreover have "handles srv q c (c1\<lparr>closePending := True\<rparr>)" if "\<not> b" "\<not> isTLS c" "state c = stateAuthorization"
    using that c0 size t1 fm by (simp add: handles_simps c1_def)
  ultimately have "handles srv q c (handleSTLS srv c)"
    if "\<not> isTLS c" "TLSConfig (opts srv)" "state c = stateAuthorization" "reader c = []"
    using that by (cases b) simp_all
  moreover have "handles srv q c (handleSTLS srv c)"
    if "isTLS c \<or> \<not> TLSConfig (opts srv) \<or> state c \<noteq> stateAuthorization \<or> reader c \<noteq> []"
    using that by (auto simp: handleSTLS_def handles_simps)
  ultimately show ?thesis by blast
qed

section \<open>Dispatch\<close>

text \<open>
  A handler for unknown commands: whatever methods of the connection it calls in which order, it only
  writes, overrides the TLS flag or takes the connection over.
\<close>

lemmas handler_simps = conn_OK_def conn_Err_def

lemma run_handler_frame [simp]:
  "state (snd (run_handler h c)) = state c" "errorCount (snd (run_handler h c)) = errorCount c"
  "startTime (snd (run_handler h c)) = startTime c" "blocked (snd (run_handler h c)) = blocked c"
  "panicking (snd (run_handler h c)) = panicking c" "pend_size (snd (run_handler h c)) = pend_size c"
  "username (snd (run_handler h c)) = username c" "reader (snd (run_handler h c)) = reader c"
  "formed c \<Longrightarrow> formed (snd (run_handler h c))"
  by (induction h arbitrary: c) (simp_all add: handler_simps)

lemma on_time_run_handler [simp]: "on_time srv d c \<Longrightarrow> on_time srv d (snd (run_handler h c))"
  by (induction h arbitrary: c) (simp_all add: handler_simps)

definition overrides :: "event list \<Rightarrow> bool" where
  "overrides es \<longleftrightarrow> (\<forall>e\<in>set es. \<exists>v. e = EvSetTLS v)"

lemma run_handler_trace:
  "\<exists>es. trace (snd (run_handler h c)) = trace c @ es \<and> overrides es
     \<and> (isTLS c \<longrightarrow> isTLS (snd (run_handler h c)) \<or> EvSetTLS False \<in> set es)
     \<and> (isTLS (snd (run_handler h c)) \<longrightarrow> isTLS c \<or> EvSetTLS True \<in> set es)"
proof (induction h arbitrary: c)
  case (HSetTLS v h)
  from HSetTLS [of "SetTLS v c"] show ?case
    by (force simp: overrides_def)
next
  case (HOK msg h)
  from HOK [of "ok msg c"] show ?case by (simp add: handler_simps)
next
  case (HErr msg h)
  from HErr [of "err_resp msg c"] show ?case by (simp add: handler_simps)
next
  case (HHijack k)
  from HHijack [of "k (fst (Hijack c))" "snd (Hijack c)"] show ?case by simp
qed (auto simp: overrides_def)

lemma run_handler_result:
  "run_handler h c = (r, c') \<Longrightarrow> handler_result h (returned r) (session c')"
  by (induction h arbitrary: c) (auto, blast+)

lemma overrides_events:
  assumes "overrides es"
  shows "list_all (permitted srv c) es" "list_all (Not \<circ> is_quit) es" "filter is_call es = []"
    "filter failed_login es = []" "\<not> list_ex login_ok es" "list_all wf_event es"
    "session_run srv es s s' \<longleftrightarrow> s = s'"
proof -
  show "session_run srv es s s' \<longleftrightarrow> s = s'" using assms by (induction es) (auto simp: overrides_def)
qed (use assms in \<open>auto simp: overrides_def filter_empty_conv list_ex_iff list_all_iff\<close>)

text \<open>What a handler has done, up to the answer to a command that it does not know.\<close>

lemma handled_unknown:
  assumes "UnknownCommandHandler (opts srv) = Some h" "run_handler (h cmd args (session c)) (elapse srv (CUnknownCommand cmd) c) = (r, c')"
  shows "handles srv q c (add_event (EvCall (CUnknownCommand cmd) (returned r)) c')"
    and "handles srv q c (unknown_command srv cmd' (add_event (EvCall (CUnknownCommand cmd) (returned r)) c'))"
proof -
  let ?c = "elapse srv (CUnknownCommand cmd) c"
  obtain es where es: "trace c' = trace c @ es" "overrides es"
    "isTLS c \<Longrightarrow> isTLS c' \<or> EvSetTLS False \<in> set es" "isTLS c' \<Longrightarrow> isTLS c \<or> EvSetTLS True \<in> set es"
    using run_handler_trace [of "h cmd args (session c)" ?c] assms(2) by auto
  have fr: "state c' = state c" "errorCount c' = errorCount c" "startTime c' = startTime c" "blocked c' = blocked c"
    "panicking c' = panicking c" "pend_size c' = pend_size c" "formed c \<Longrightarrow> formed c'" "on_time srv c c'"
    using run_handler_frame [where h = "h cmd args (session c)" and c = ?c]
      on_time_run_handler [of srv c ?c "h cmd args (session c)"] assms(2) by auto
  have ef: "effect srv (CUnknownCommand cmd) (returned r) (session c) (session c')"
    using assms(1) run_handler_result [OF assms(2)] by auto
  have sr: "session_run srv (es @ [EvCall (CUnknownCommand cmd) (returned r)]) (session c) (session c')"
    using ef by (simp add: session_run_append overrides_events(7) [OF es(2)] del: effect.simps)
  show "handles srv q c (add_event (EvCall (CUnknownCommand cmd) (returned r)) c')"
    and "handles srv q c (unknown_command srv cmd' (add_event (EvCall (CUnknownCommand cmd) (returned r)) c'))"
    using es fr sr by (auto simp: handles_def overrides_events(1-6) [OF es(2)])
qed

lemma handles_panic: "handles srv q c d \<Longrightarrow> handles srv q c (panic d)"
  by (simp add: handles_def new_events_def)

lemma handles_unknown_command: "handles srv q c (unknown_command srv cmd c)"
  by (simp add: handles_simps)

lemma handles_unknown: "handles srv q c (snd (dispatchUnknown srv cmd args c))"
proof (cases "UnknownCommandHandler (opts srv)")
  case None
  then show ?thesis by (simp add: dispatchUnknown_def handles_unknown_command)
next
  case (Some h)
  obtain r c' where rh: "run_handler (h cmd args (session c)) (elapse srv (CUnknownCommand cmd) c) = (r, c')" by fastforce
  note hd = handled_unknown [OF Some rh]
  show ?thesis
    using Some rh hd handles_panic [OF hd(1)] by (auto simp: dispatchUnknown_def Let_def split: outcome.split)
qed

lemmas handles_any =
  handles_clientError handles_capa handles_utf8 handles_lang handles_unknown handles_refl

lemma handles_write: "handles srv q c (ok msg c)" "handles srv q c (err_resp msg c)"
  by (simp_all add: handles_simps)

lemma dispatchAuth_handles:
  "state c = stateAuthorization \<Longrightarrow>
     handles srv (fst (dispatchAuth srv cmd args c)) c (snd (dispatchAuth srv cmd args c))"
  by (simp add: dispatchAuth_def handles_any handles_write handles_user handles_pass handles_auth
      handles_stls)

lemma dispatchTransaction_handles:
  "state c = stateTransaction \<Longrightarrow>
     handles srv (fst (dispatchTransaction srv cmd args c)) c (snd (dispatchTransaction srv cmd args c))"
  by (simp add: dispatchTransaction_def handles_any handles_write handles_stat handles_list handles_uidl
      handles_retr handles_top handles_dele handles_rset handles_noop handles_quit)

lemma dispatch_handles:
  "handles srv (fst (dispatch srv cmd args c)) c (snd (dispatch srv cmd args c))"
  by (cases "state c") (simp_all add: dispatch_def dispatchAuth_handles dispatchTransaction_handles)

end
