(* ===== verification/Serve.thy ===== *)
theory Serve
  imports Protocol
begin

text \<open>
  The command loop of \<^verbatim>\<open>pop3server/conn.go\<close> (\<^verbatim>\<open>serve\<close>, \<^verbatim>\<open>close\<close>) and
  \<^verbatim>\<open>pop3server/server.go\<close>: the set-up of a connection, the rejection of one, the recovery from
  a panic, and the accept loop with its back-off.

  A peer is a finite list of events followed by silence, so the loop ends; that it does is the
  termination proof of \<open>serve_loop\<close>. A read that waits for ever ends it with \<open>blocked\<close>
  set, and then none of the deferred calls runs.
\<close>

section \<open>The command loop\<close>

definition on_timeout :: "'s Server \<Rightarrow> bytes \<Rightarrow> 's Conn \<Rightarrow> 's Conn" where
  "on_timeout srv reason c = (if OnTimeout (opts srv) then add_event (EvOnTimeout reason) c else c)"

text \<open>What the loop does with an error of \<^verbatim>\<open>readLine\<close> before it returns.\<close>

definition read_error :: "'s Server \<Rightarrow> err \<Rightarrow> 's Conn \<Rightarrow> 's Conn" where
  "read_error srv e c =
     (if isTimeout e then
        (if AbsoluteSessionTimeout (opts srv) > 0
            \<and> now (netConn c) - startTime c \<ge> AbsoluteSessionTimeout (opts srv)
         then on_timeout srv TimeoutAbsolute
                (snd (flush (err_resp ''[IN-USE] Maximum session duration exceeded'' c)))
         else on_timeout srv TimeoutIdle
                (snd (flush (err_resp ''Idle timeout, connection timed out'' c))))
      else if errors_Is e ErrLineTooLong then snd (flush (err_resp ''Line too long'' c))
      else c)"

text \<open>
  The end of a round: the hook, the checks that may end the connection, the flush of the response.
  The result says whether the loop goes on.
\<close>

definition finish_command :: "'s Server \<Rightarrow> bytes \<Rightarrow> int \<Rightarrow> bool \<Rightarrow> 's Conn \<Rightarrow> bool \<times> 's Conn" where
  "finish_command srv cmd start quit c =
     (let c = (if OnCommand (opts srv)
               then add_event (EvOnCommand cmd (now (netConn c) - start) (lastErr c)) c else c)
      in if hijacked c then (False, c)
         else
           (let quit = (quit \<or> closePending c);
                exceeded = (\<not> quit \<and> maxErrorsExceeded srv c);
                c = (if exceeded then err_resp ''Too many errors, closing connection'' c else c);
                quit = (quit \<or> exceeded)
            in case flush c of
                 (Some e, c) \<Rightarrow> (False, c)
               | (None, c) \<Rightarrow> (\<not> quit, c)))"

text \<open>When the context of a command that is dispatched now is done.\<close>

definition cmdDeadline :: "'s Server \<Rightarrow> 's Conn \<Rightarrow> int option" where
  "cmdDeadline srv c =
     earlier (conn_ctx srv (startTime c))
       (if CommandTimeout (opts srv) > 0 then Some (now (netConn c) + CommandTimeout (opts srv)) else None)"

text \<open>One command, from the trimmed line to the end of the round.\<close>

definition process_line :: "'s Server \<Rightarrow> bytes \<Rightarrow> 's Conn \<Rightarrow> bool \<times> 's Conn" where
  "process_line srv line c =
     (let (verb, raw) = splitCommand line;
          cmd = ToUpper (uni srv) verb;
          args = Fields raw;
          c = c\<lparr>rawArg := raw\<rparr>;
          c = c\<lparr>cmdCtx := cmdDeadline srv c\<rparr>;
          c = SetDeadline None c;
          c = c\<lparr>lastErr := None\<rparr>;
          start = now (netConn c);
          (quit, c) = dispatch srv cmd args c
      in if panicking c \<or> blocked c then (False, c) else finish_command srv cmd start quit c)"

text \<open>One round of the loop.\<close>

definition serve_step :: "'s Server \<Rightarrow> 's Conn \<Rightarrow> bool \<times> 's Conn" where
  "serve_step srv c =
     (let (r, c) = readLine srv (arm_deadline srv c)
      in case r of
           None \<Rightarrow> (False, c\<lparr>blocked := True\<rparr>)
         | Some (Inl e) \<Rightarrow> (False, read_error srv e c)
         | Some (Inr raw) \<Rightarrow>
             (let line = TrimSpace raw
              in if line = [] then (True, c) else process_line srv line c))"

section \<open>One command keeps the contract\<close>

text \<open>The state in which a line is dispatched, and what the dispatch leaves.\<close>

definition prepared :: "'s Server \<Rightarrow> bytes \<Rightarrow> 's Conn \<Rightarrow> 's Conn" where
  "prepared srv raw c = (SetDeadline None (c\<lparr>rawArg := raw, cmdCtx := cmdDeadline srv c\<rparr>))\<lparr>lastErr := None\<rparr>"

definition dispatched :: "'s Server \<Rightarrow> bytes \<Rightarrow> 's Conn \<Rightarrow> bool \<times> 's Conn" where
  "dispatched srv line c =
     (let (verb, raw) = splitCommand line
      in dispatch srv (ToUpper (uni srv) verb) (Fields raw) (prepared srv raw c))"

lemma cmdDeadline_le:
  "AbsoluteSessionTimeout (opts srv) > 0 \<Longrightarrow>
     \<exists>d. cmdDeadline srv c = Some d \<and> d \<le> startTime c + AbsoluteSessionTimeout (opts srv)"
  by (auto simp: cmdDeadline_def conn_ctx_def earlier_Some split: option.split)

lemma on_time_context: "on_time srv c (c\<lparr>rawArg := raw, cmdCtx := cmdDeadline srv c\<rparr>)"
  using cmdDeadline_le [of srv c] by (auto simp: on_time_def timed_def credit_def)

lemma prepared_quiet: "quiet srv c (prepared srv raw c)"
  using on_time_context by (simp add: prepared_def quiet_def)

lemma dispatched_handles: "handles srv (fst (dispatched srv line c)) c (snd (dispatched srv line c))"
  by (auto simp: dispatched_def case_prod_beta intro: handles_mono [OF dispatch_handles prepared_quiet])

text \<open>What follows the dispatch: at most the hook event, a response and the flush.\<close>

definition hook_events :: "'s Server \<Rightarrow> bytes \<Rightarrow> int \<Rightarrow> 's Conn \<Rightarrow> event list" where
  "hook_events srv cmd start c =
     (if OnCommand (opts srv) then [EvOnCommand cmd (now (netConn c) - start) (lastErr c)] else [])"

lemma finish_command_frame [simp]:
  "trace (snd (finish_command srv cmd start quit c)) = trace c @ hook_events srv cmd start c"
  "state (snd (finish_command srv cmd start quit c)) = state c"
  "isTLS (snd (finish_command srv cmd start quit c)) = isTLS c"
  "errorCount (snd (finish_command srv cmd start quit c)) = errorCount c"
  "startTime (snd (finish_command srv cmd start quit c)) = startTime c"
  "hijacked (snd (finish_command srv cmd start quit c)) = hijacked c"
  "panicking (snd (finish_command srv cmd start quit c)) = panicking c"
  "blocked (snd (finish_command srv cmd start quit c)) = blocked c"
  "closePending (snd (finish_command srv cmd start quit c)) = closePending c"
  "username (snd (finish_command srv cmd start quit c)) = username c"
  "session (snd (finish_command srv cmd start quit c)) = session c"
  "reader (snd (finish_command srv cmd start quit c)) = reader c"
  "pend_size (snd (finish_command srv cmd start quit c)) = pend_size c"
  by (simp_all add: finish_command_def hook_events_def case_prod_beta Let_def split: option.split)

lemma on_time_finish_command [simp]:
  "on_time srv c d \<Longrightarrow> on_time srv c (snd (finish_command srv' cmd start quit d))"
  by (simp add: finish_command_def case_prod_beta Let_def split: option.split)

lemma formed_finish_command [simp]: "formed c \<Longrightarrow> formed (snd (finish_command srv cmd start quit c))"
  by (simp add: finish_command_def case_prod_beta Let_def split: option.split)

lemma finish_command_continues:
  "fst (finish_command srv cmd start quit c) \<Longrightarrow>
     \<not> quit \<and> \<not> closePending c \<and> \<not> hijacked c \<and> \<not> maxErrorsExceeded srv c"
  by (auto simp: finish_command_def maxErrorsExceeded_def case_prod_beta Let_def
      split: if_splits option.splits)

lemma process_line_alt:
  "process_line srv line c =
     (let (quit, d) = dispatched srv line c
      in if panicking d \<or> blocked d then (False, d)
         else finish_command srv (ToUpper (uni srv) (fst (splitCommand line))) (now (netConn c)) quit d)"
  by (simp add: process_line_def dispatched_def prepared_def cmdDeadline_def case_prod_beta Let_def)

section \<open>One round\<close>

fun is_hook :: "event \<Rightarrow> bool" where
  "is_hook (EvOnCommand cmd t e) = True"
| "is_hook (EvOnTimeout r) = True"
| "is_hook _ = False"

text \<open>
  \<open>round srv c b c'\<close>: the round from \<open>c\<close> to \<open>c'\<close> is one command that keeps the
  handlers' contract, followed by hook calls; \<open>b\<close> says that the loop goes on, which it does only
  after a line was read, no session call has asked to quit, and the error limit is not reached.
\<close>

definition round :: "'s Server \<Rightarrow> 's Conn \<Rightarrow> bool \<Rightarrow> 's Conn \<Rightarrow> bool" where
  "round srv c b c' \<longleftrightarrow>
     (\<exists>q d hs. handles srv q c d \<and> trace c' = trace d @ hs \<and> list_all is_hook hs
       \<and> state c' = state d \<and> isTLS c' = isTLS d \<and> errorCount c' = errorCount d
       \<and> startTime c' = startTime d \<and> hijacked c' = hijacked d \<and> panicking c' = panicking d
       \<and> blocked c' = blocked d \<and> on_time srv c c' \<and> (formed d \<longrightarrow> formed c') \<and> session c' = session d
       \<and> (b \<longrightarrow> \<not> q \<and> (panicking c' \<longrightarrow> panicking c) \<and> (blocked c' \<longrightarrow> blocked c)
            \<and> (hijacked c' \<longrightarrow> hijacked c) \<and> (closePending c' \<longrightarrow> closePending c)
            \<and> (errorCount c' = errorCount c \<or> \<not> maxErrorsExceeded srv c')
            \<and> pend_size c' < pend_size c))"

lemma read_error_frame [simp]:
  "state (read_error srv e c) = state c" "isTLS (read_error srv e c) = isTLS c"
  "errorCount (read_error srv e c) = errorCount c" "startTime (read_error srv e c) = startTime c"
  "hijacked (read_error srv e c) = hijacked c" "panicking (read_error srv e c) = panicking c"
  "blocked (read_error srv e c) = blocked c"
  "reader (read_error srv e c) = reader c" "session (read_error srv e c) = session c"
  by (simp_all add: read_error_def on_timeout_def)

lemma on_time_read_error [simp]: "on_time srv c d \<Longrightarrow> on_time srv c (read_error srv' e d)"
  by (simp add: read_error_def on_timeout_def)

lemma formed_read_error [simp]: "formed c \<Longrightarrow> formed (read_error srv e c)"
  by (simp add: read_error_def on_timeout_def)

lemma read_error_trace: "\<exists>hs. trace (read_error srv e c) = trace c @ hs \<and> list_all is_hook hs"
  by (simp add: read_error_def on_timeout_def)

lemma round_process:
  assumes q: "quiet srv c d" and lt: "pend_size d < pend_size c"
    and same: "panicking d = panicking c" "hijacked d = hijacked c" "closePending d = closePending c"
    and pl: "process_line srv line d = (b, c')"
  shows "round srv c b c'"
proof -
  obtain quit e where de: "dispatched srv line d = (quit, e)" by fastforce
  have h: "handles srv quit c e"
    using handles_mono [OF dispatched_handles q, of line] de by simp
  note ot = handles_on_time [OF h]
  show ?thesis
  proof (cases "panicking e \<or> blocked e")
    case True
    then have "\<not> b" "c' = e" using pl by (simp_all add: process_line_alt de)
    moreover have "trace e = trace e @ []" "list_all is_hook []" by simp_all
    ultimately show ?thesis
      using h ot unfolding round_def by (intro exI [of _ quit] exI [of _ e] exI [of _ "[]"]) simp
  next
    case False
    let ?cmd = "ToUpper (uni srv) (fst (splitCommand line))" and ?t = "now (netConn d)"
    have fc: "finish_command srv ?cmd ?t quit e = (b, c')"
      using False pl by (simp add: process_line_alt de)
    then have c': "c' = snd (finish_command srv ?cmd ?t quit e)" by simp
    have "pend_size e \<le> pend_size d"
      using dispatched_handles [of srv line d] de by (simp add: handles_def)
    moreover have "b \<Longrightarrow> \<not> quit \<and> \<not> closePending e \<and> \<not> hijacked e \<and> \<not> maxErrorsExceeded srv e"
      using finish_command_continues [of srv ?cmd ?t quit e] fc by simp
    moreover have "list_all is_hook (hook_events srv ?cmd ?t e)" by (simp add: hook_events_def)
    ultimately show ?thesis
      using h ot lt False unfolding round_def c'
      by (intro exI [of _ quit] exI [of _ e] exI [of _ "hook_events srv ?cmd ?t e"])
        (simp add: maxErrorsExceeded_def)
  qed
qed

lemma serve_step_round:
  assumes "serve_step srv c = (b, c')"
  shows "round srv c b c'"
proof -
  obtain r d where rl: "readLine srv (arm_deadline srv c) = (r, d)" by fastforce
  have d: "d = snd (readLine srv (arm_deadline srv c))" using rl by simp
  have same: "panicking d = panicking c" "hijacked d = hijacked c" "closePending d = closePending c"
    "blocked d = blocked c"
    by (simp_all add: d)
  note q = armed_read(1) [OF rl]
  have h: "handles srv False c d" using q by (rule handles_quiet)
  note ot = handles_on_time [OF h]
  consider (block) "r = None" | (error) e where "r = Some (Inl e)" | (line) raw where "r = Some (Inr raw)"
    by (metis not_None_eq sum.exhaust)
  then show ?thesis
  proof cases
    case block
    have "quiet srv c (d\<lparr>blocked := True\<rparr>)"
      using q armed_read(2) [OF rl] block by (auto simp: quiet_def)
    then have "handles srv False c (d\<lparr>blocked := True\<rparr>)" by (rule handles_quiet)
    moreover have "b = False" "c' = d\<lparr>blocked := True\<rparr>"
      using assms rl block by (simp_all add: serve_step_def)
    ultimately show ?thesis unfolding round_def by (intro exI conjI) (assumption | simp add: ot)+
  next
    case (error e)
    have eq: "b = False" "c' = read_error srv e d" using assms rl error by (simp_all add: serve_step_def)
    obtain hs where "trace c' = trace d @ hs" "list_all is_hook hs"
      unfolding eq using read_error_trace by blast
    with h eq show ?thesis unfolding round_def by (intro exI conjI) (assumption | simp add: ot)+
  next
    case (line raw)
    then have lt: "pend_size d < pend_size c"
      using readLine_pend_size(2) [of srv "arm_deadline srv c" raw] rl by simp
    show ?thesis
    proof (cases "TrimSpace raw = []")
      case True
      then have "b" "c' = d" using assms rl line by (simp_all add: serve_step_def)
      moreover have "trace d = trace d @ []" "list_all is_hook []" by simp_all
      moreover have "errorCount d = errorCount c" using q by (simp add: quiet_def)
      ultimately show ?thesis
        using h ot lt same unfolding round_def by (intro exI [of _ False] exI [of _ d] exI [of _ "[]"]) simp
    next
      case False
      then have "process_line srv (TrimSpace raw) d = (b, c')"
        using assms rl line by (simp add: serve_step_def)
      then show ?thesis using round_process [OF q lt] same by blast
    qed
  qed
qed

section \<open>The loop\<close>

lemma serve_step_decreases: "serve_step srv c = (True, c') \<Longrightarrow> pend_size c' < pend_size c"
  using serve_step_round by (auto simp: round_def)

function serve_loop :: "'s Server \<Rightarrow> 's Conn \<Rightarrow> 's Conn" where
  "serve_loop srv c = (case serve_step srv c of (True, c') \<Rightarrow> serve_loop srv c' | (False, c') \<Rightarrow> c')"
  by pat_completeness auto
termination
  by (relation "measure (\<lambda>(srv, c). pend_size c)") (auto intro: serve_step_decreases [OF sym])

declare serve_loop.simps [simp del]

text \<open>The deferred \<^verbatim>\<open>close\<close>, and the whole life of a connection.\<close>

definition close :: "'s Server \<Rightarrow> 's Conn \<Rightarrow> 's Conn" where
  "close srv c =
     (let (r, s) = s_Close (meths srv) (session c);
          c = add_event EvSessionClose (c\<lparr>session := s\<rparr>)
      in if r = Panic then panic c
         else if \<not> hijacked c then add_event EvNetClose c else c)"

definition serve :: "'s Server \<Rightarrow> 's Conn \<Rightarrow> 's Conn" where
  "serve srv c =
     (case flush (ok (Greeting (opts srv)) c) of
        (Some e, c) \<Rightarrow> close srv c
      | (None, c) \<Rightarrow> (let c = serve_loop srv c in if blocked c then c else close srv c))"

section \<open>Setting a connection up\<close>

text \<open>
  What a \<^verbatim>\<open>net.Conn\<close> is, as far as \<^verbatim>\<open>isTLSConn\<close> looks: a TLS connection, one without
  an \<^verbatim>\<open>Unwrap\<close> method, or a wrapper, whose \<^verbatim>\<open>Unwrap\<close> may return nil.
\<close>

datatype conn_kind = TLSConn | PlainConn | Wrapper "conn_kind option"

fun isTLSConn :: "conn_kind \<Rightarrow> bool" where
  "isTLSConn TLSConn = True"
| "isTLSConn PlainConn = False"
| "isTLSConn (Wrapper None) = False"
| "isTLSConn (Wrapper (Some k)) = isTLSConn k"

definition newConn :: "'t Server \<Rightarrow> 's \<Rightarrow> bool \<Rightarrow> Net \<Rightarrow> 's Conn" where
  "newConn srv s tls n =
     \<lparr>netConn = n, reader = [], writer = newWriter srv, session = s, state = stateAuthorization,
      username = [], rawArg = [], cmdCtx = conn_ctx srv (now n), errorCount = 0, isTLS = tls, startTime = now n, hijacked = False,
      closePending = False, lastErr = None, panicking = False, blocked = False, trace = []\<rparr>"

text \<open>What is left of a connection when its handler is done.\<close>

record ended =
  e_trace :: "event list"
  e_net :: Net
  e_panic :: bool
  e_blocked :: bool

definition ended_of :: "'s Conn \<Rightarrow> ended" where
  "ended_of c = \<lparr>e_trace = trace c, e_net = netConn c, e_panic = panicking c, e_blocked = blocked c\<rparr>"

text \<open>
  \<^verbatim>\<open>handleConn\<close>. The \<^verbatim>\<open>NewSession\<close> callback sees the connection while its session is still
  nil and returns its outcome with the TLS flag as \<^verbatim>\<open>SetTLS\<close> left it.
\<close>

definition handleConn ::
    "'s Server \<Rightarrow> (unit Conn \<Rightarrow> 's outcome \<times> bool) \<Rightarrow> conn_kind \<Rightarrow> Net \<Rightarrow> ended" where
  "handleConn srv newSession kind n =
     (let c = newConn srv () (isTLSConn kind) n
      in case newSession c of
           (Panic, tls) \<Rightarrow> ended_of (panic c)
         | (Fail e, tls) \<Rightarrow>
             (if errors_Is e ErrSilentReject then ended_of (add_event EvNetClose c)
              else
                (let msg = (case errors_As e of
                              Some perr \<Rightarrow> wireMessage (uni srv) perr
                            | None \<Rightarrow> RejectMessage (opts srv))
                 in ended_of (add_event EvNetClose (snd (flush (err_resp msg c))))))
         | (Ret s, tls) \<Rightarrow> ended_of (serve srv (newConn srv s tls n)))"

definition recoverConn :: "'s Server \<Rightarrow> ended \<Rightarrow> ended" where
  "recoverConn srv r =
     (if e_panic r
      then r\<lparr>e_trace := e_trace r @ (if OnPanic (opts srv) then [EvOnPanic] else []) @ [EvNetClose],
             e_panic := False\<rparr>
      else r)"

definition ServeConn ::
    "'s Server \<Rightarrow> (unit Conn \<Rightarrow> 's outcome \<times> bool) \<Rightarrow> conn_kind \<Rightarrow> Net \<Rightarrow> ended" where
  "ServeConn srv newSession kind n = recoverConn srv (handleConn srv newSession kind n)"

text \<open>\<^verbatim>\<open>New\<close>: a server whose options have the defaults filled in. Its last argument is the moment
  of a later \<^verbatim>\<open>Close\<close>.\<close>

definition New :: "'s Options \<Rightarrow> unicode \<Rightarrow> 's Session \<Rightarrow> int option \<Rightarrow> 's Server" where
  "New o1 u m t = \<lparr>opts = defaults o1, uni = u, meths = m, closes = t\<rparr>"

section \<open>The accept loop\<close>

text \<open>
  An \<^verbatim>\<open>Accept\<close> returns a connection or an error, and with the error whether the server had been
  shut down when it was looked at: before the back-off, during it, or not at all.
\<close>

datatype shutdown = Before | During | NotYet

datatype 'c accept = Accepted 'c | AcceptErr shutdown

datatype 'c accept_action = Spawn 'c | Sleep int

definition maxBackoff :: int where
  "maxBackoff = second"

definition next_backoff :: "int \<Rightarrow> int" where
  "next_backoff backoff =
     (let b = (if backoff = 0 then 5000000 else backoff * 2) in if b > maxBackoff then maxBackoff else b)"

text \<open>What \<^verbatim>\<open>Serve\<close> does, and whether it has returned.\<close>

fun Serve :: "int \<Rightarrow> 'c accept list \<Rightarrow> 'c accept_action list \<times> bool" where
  "Serve backoff [] = ([], False)"
| "Serve backoff (Accepted c # as) = (let (acts, r) = Serve 0 as in (Spawn c # acts, r))"
| "Serve backoff (AcceptErr Before # as) = ([], True)"
| "Serve backoff (AcceptErr During # as) = ([Sleep (next_backoff backoff)], True)"
| "Serve backoff (AcceptErr NotYet # as) =
     (let b = next_backoff backoff; (acts, r) = Serve b as in (Sleep b # acts, r))"

end
