(* ===== verification/Runs.thy ===== *)
theory Runs
  imports Serve
begin

text \<open>
  What holds of every run of the command loop. The heads of the loop are an inductive relation; an
  invariant is shown for one round and carried over the run by the locale \<open>loop_invariant\<close>,
  which is interpreted on each of the invariants below. The theorems at the end read the invariants
  off the trace that \<open>serve\<close> leaves.
\<close>

section \<open>Loop heads and invariants\<close>

inductive loop_head :: "'s Server \<Rightarrow> 's Conn \<Rightarrow> 's Conn \<Rightarrow> bool" for srv c0 where
  start: "loop_head srv c0 c0"
| again: "loop_head srv c0 c \<Longrightarrow> serve_step srv c = (True, c') \<Longrightarrow> loop_head srv c0 c'"

inductive_cases loop_headE: "loop_head srv c0 c"

lemma loop_head_trans:
  "loop_head srv b c \<Longrightarrow> loop_head srv a b \<Longrightarrow> loop_head srv a c"
  by (induction rule: loop_head.induct) (auto intro: loop_head.intros)

lemma serve_loop_last:
  "\<exists>c. loop_head srv c0 c \<and> serve_step srv c = (False, serve_loop srv c0)"
proof (induction srv c0 rule: serve_loop.induct)
  case (1 srv c0)
  obtain b c1 where st: "serve_step srv c0 = (b, c1)" by fastforce
  show ?case
  proof (cases b)
    case True
    with "1.IH" [OF st [symmetric]] obtain c where "loop_head srv c1 c" "serve_step srv c = (False, serve_loop srv c1)"
      by blast
    moreover have "loop_head srv c0 c1" using st True by (auto intro: loop_head.intros)
    ultimately show ?thesis
      using st True loop_head_trans by (fastforce simp: serve_loop.simps [of srv c0])
  next
    case False
    with st show ?thesis by (auto simp: serve_loop.simps [of srv c0] intro: loop_head.start)
  qed
qed

locale loop_invariant =
  fixes srv :: "'s Server" and I :: "'s Conn \<Rightarrow> bool"
  assumes keeps: "I c \<Longrightarrow> round srv c True c' \<Longrightarrow> I c'"
begin

lemma head: "loop_head srv c0 c \<Longrightarrow> I c0 \<Longrightarrow> I c"
  by (induction rule: loop_head.induct) (auto intro: keeps serve_step_round)

lemma last_round:
  assumes "I c0"
  obtains c where "I c" "round srv c False (serve_loop srv c0)"
  using serve_loop_last [of srv c0] head [OF _ assms] serve_step_round by blast

end

section \<open>The events of a round\<close>

lemma round_events:
  assumes "round srv c b c'"
  obtains es hs where "trace c' = trace c @ es @ hs" "list_all is_hook hs"
    "list_all (permitted srv c) es" "b \<Longrightarrow> list_all (Not \<circ> is_quit) es" "length (filter is_call es) \<le> 1"
    "state c' = stateTransaction \<Longrightarrow> state c = stateTransaction \<or> list_ex login_ok es"
    "isTLS c' \<Longrightarrow> isTLS c \<or> EvTLS True \<in> set es \<or> EvSetTLS True \<in> set es"
    "formed c \<Longrightarrow> formed c' \<and> list_all wf_event es"
    "list_ex login_ok es \<Longrightarrow> state c' = stateTransaction \<or> hijacked c'"
    "AuthFailuresExemptFromMaxErrors (opts srv) \<or> panicking c'
       \<or> int (length (filter failed_login es)) \<le> errorCount c' - errorCount c"
proof -
  obtain q d hs where h: "handles srv q c d" "trace c' = trace d @ hs" "list_all is_hook hs"
    "state c' = state d" "isTLS c' = isTLS d" "errorCount c' = errorCount d" "hijacked c' = hijacked d"
    "panicking c' = panicking d" "formed d \<longrightarrow> formed c'"
    and cont: "b \<longrightarrow> \<not> q \<and> (panicking c' \<longrightarrow> panicking c) \<and> (blocked c' \<longrightarrow> blocked c)
            \<and> (hijacked c' \<longrightarrow> hijacked c) \<and> (closePending c' \<longrightarrow> closePending c)
            \<and> (errorCount c' = errorCount c \<or> \<not> maxErrorsExceeded srv c')
            \<and> pend_size c' < pend_size c"
    using assms unfolding round_def by - (elim exE conjE, rule that)
  have "prefix (trace c) (trace d)"
    using h(1) unfolding handles_def by - (elim conjE, assumption)
  then have tr: "trace d = trace c @ new_events c d"
    by (auto simp: new_events_def prefix_def)
  have hd: "list_all (permitted srv c) (new_events c d)" "q \<or> list_all (Not \<circ> is_quit) (new_events c d)"
    "length (filter is_call (new_events c d)) \<le> 1"
    "state d = stateTransaction \<longrightarrow> state c = stateTransaction \<or> list_ex login_ok (new_events c d)"
    "isTLS d \<longrightarrow> isTLS c \<or> EvTLS True \<in> set (new_events c d) \<or> EvSetTLS True \<in> set (new_events c d)"
    "list_ex login_ok (new_events c d) \<longrightarrow> state d = stateTransaction \<or> hijacked d"
    "AuthFailuresExemptFromMaxErrors (opts srv) \<or> panicking d
       \<or> int (length (filter failed_login (new_events c d))) \<le> errorCount d - errorCount c"
    "formed c \<longrightarrow> formed d \<and> list_all wf_event (new_events c d)"
    using h(1) unfolding handles_def by - (elim conjE, assumption)+
  have "trace c' = trace c @ new_events c d @ hs" unfolding h(2) tr [symmetric] append_assoc [symmetric] ..
  then show thesis
  proof (rule that)
    show "list_all is_hook hs" by (rule h(3))
    show "b \<Longrightarrow> list_all (Not \<circ> is_quit) (new_events c d)" using hd(2) cont by blast
    show "state c' = stateTransaction \<Longrightarrow> state c = stateTransaction \<or> list_ex login_ok (new_events c d)"
      unfolding h(4) using hd(4) by blast
    show "isTLS c' \<Longrightarrow> isTLS c \<or> EvTLS True \<in> set (new_events c d) \<or> EvSetTLS True \<in> set (new_events c d)"
      unfolding h(5) using hd(5) by blast
    show "formed c \<Longrightarrow> formed c' \<and> list_all wf_event (new_events c d)" using hd(8) h(9) by blast
    show "list_ex login_ok (new_events c d) \<Longrightarrow> state c' = stateTransaction \<or> hijacked c'"
      unfolding h(4,7) using hd(6) by blast
    show "AuthFailuresExemptFromMaxErrors (opts srv) \<or> panicking c'
       \<or> int (length (filter failed_login (new_events c d))) \<le> errorCount c' - errorCount c"
      unfolding h(6,8) by (rule hd(7))
    show "list_all (permitted srv c) (new_events c d)" by (rule hd(1))
    show "length (filter is_call (new_events c d)) \<le> 1" by (rule hd(3))
  qed
qed

lemma round_counts:
  assumes "round srv c b c'"
  shows "errorCount c \<le> errorCount c'" "errorCount c' \<le> errorCount c + 1" "startTime c' = startTime c"
    "state c = stateTransaction \<longrightarrow> state c' = stateTransaction"
    "IdleTimeout (opts srv) > 0 \<or> AbsoluteSessionTimeout (opts srv) > 0 \<longrightarrow> blocked c' \<longrightarrow> blocked c"
    "on_time srv c c'"
proof -
  obtain q d where h: "handles srv q c d" and eq: "errorCount c' = errorCount d" "startTime c' = startTime d"
    "state c' = state d" "isTLS c' = isTLS d" "blocked c' = blocked d" "on_time srv c c'"
    using assms unfolding round_def by - (elim exE conjE, rule that)
  show "errorCount c \<le> errorCount c'" "errorCount c' \<le> errorCount c + 1" "startTime c' = startTime c"
    "state c = stateTransaction \<longrightarrow> state c' = stateTransaction"
    "IdleTimeout (opts srv) > 0 \<or> AbsoluteSessionTimeout (opts srv) > 0 \<longrightarrow> blocked c' \<longrightarrow> blocked c"
    "on_time srv c c'"
    using h eq(6) unfolding handles_def eq(1-5) by - (elim conjE, assumption)+
qed

lemma round_continues:
  assumes "round srv c True c'"
  shows "panicking c' \<Longrightarrow> panicking c" "blocked c' \<Longrightarrow> blocked c" "hijacked c' \<Longrightarrow> hijacked c"
    "closePending c' \<Longrightarrow> closePending c" "errorCount c' = errorCount c \<or> \<not> maxErrorsExceeded srv c'"
  using assms unfolding round_def by blast+

text \<open>Events guarded by what came before them.\<close>

definition guarded :: "(event list \<Rightarrow> event \<Rightarrow> bool) \<Rightarrow> event list \<Rightarrow> bool" where
  "guarded G tr \<longleftrightarrow> (\<forall>xs e ys. tr = xs @ e # ys \<longrightarrow> G xs e)"

lemma guardedD: "guarded G (xs @ e # ys) \<Longrightarrow> G xs e"
  by (auto simp: guarded_def)

lemma guarded_Nil [simp]: "guarded G []"
  by (simp add: guarded_def)

lemma guarded_extend:
  assumes "guarded G a" and new: "\<And>xs e ys. b = xs @ e # ys \<Longrightarrow> G (a @ xs) e"
  shows "guarded G (a @ b)"
  unfolding guarded_def
proof (intro allI impI)
  fix xs e ys assume eq: "a @ b = xs @ e # ys"
  show "G xs e"
  proof (cases "length xs < length a")
    case True
    then obtain zs where "a = xs @ e # zs"
      using eq by (auto simp: append_eq_append_conv2 append_eq_Cons_conv)
    with assms(1) show ?thesis by (auto simp: guarded_def)
  next
    case False
    then obtain zs where "xs = a @ zs" "b = zs @ e # ys"
      using eq by (auto simp: append_eq_append_conv2)
    then show ?thesis using new by simp
  qed
qed

lemma guarded_append:
  "guarded G a \<Longrightarrow> (\<And>xs e. e \<in> set b \<Longrightarrow> G (a @ xs) e) \<Longrightarrow> guarded G (a @ b)"
  by (rule guarded_extend) auto

section \<open>The invariants\<close>

text \<open>Transaction calls come after a login that succeeded, and no login comes after one.\<close>

definition needs_login :: "event list \<Rightarrow> event \<Rightarrow> bool" where
  "needs_login xs e =
     (case e of
        EvCall k r \<Rightarrow> (is_transaction k \<longrightarrow> list_ex login_ok xs) \<and> (is_login k \<longrightarrow> \<not> list_ex login_ok xs)
      | _ \<Rightarrow> True)"

definition login_inv :: "'s Conn \<Rightarrow> bool" where
  "login_inv c \<longleftrightarrow>
     guarded needs_login (trace c) \<and> \<not> hijacked c
     \<and> (state c = stateTransaction \<longleftrightarrow> list_ex login_ok (trace c))"

lemma hook_not_call: "is_hook e \<Longrightarrow> \<not> is_call e \<and> \<not> login_ok e \<and> \<not> failed_login e \<and> \<not> is_quit e"
  by (cases e) auto

lemma hooks_harmless:
  assumes "list_all is_hook hs"
  shows "\<not> list_ex login_ok hs" "filter failed_login hs = []" "filter is_quit hs = []"
    "EvTLS b \<notin> set hs" "EvCall k r \<notin> set hs" "filter is_call hs = []"
  using assms hook_not_call by (auto simp: list_all_iff list_ex_iff filter_empty_conv)

lemma login_ok_call: "login_ok e \<Longrightarrow> is_call e"
  by (cases e) auto

lemma needs_login_other: "\<not> is_call e \<Longrightarrow> needs_login xs e"
  by (cases e) (auto simp: needs_login_def)

text \<open>Of the events of a round at most one is a call, so what precedes it in the round is no login.\<close>

lemma no_login_before_call:
  assumes "length (filter is_call (xs @ EvCall k r # ys)) \<le> 1"
  shows "\<not> list_ex login_ok xs"
proof
  assume "list_ex login_ok xs"
  then obtain e where "e \<in> set xs" "login_ok e" by (auto simp: list_ex_iff)
  then have "e \<in> set (filter is_call xs)" using login_ok_call by auto
  then have "length (filter is_call xs) > 0" by (rule length_pos_if_in_set)
  with assms show False by simp
qed

lemma login_round:
  assumes inv: "guarded needs_login (trace c)" "state c = stateTransaction \<longleftrightarrow> list_ex login_ok (trace c)"
    and r: "round srv c b c'"
  shows "guarded needs_login (trace c')"
proof -
  obtain es hs where tr: "trace c' = trace c @ es @ hs" "list_all is_hook hs"
    and es: "list_all (permitted srv c) es" "length (filter is_call es) \<le> 1"
    using round_events [OF r] by metis
  have "needs_login (trace c @ xs) e" if eq: "es = xs @ e # ys" for xs e ys
  proof (cases e)
    case (EvCall k ret)
    have "permitted srv c e" using es(1) eq by (simp add: list_all_iff)
    moreover have "\<not> list_ex login_ok xs" using no_login_before_call es(2) eq EvCall by blast
    ultimately show ?thesis using inv(2) EvCall by (auto simp: needs_login_def)
  qed (simp_all add: needs_login_def)
  moreover have "needs_login xs e" if "e \<in> set hs" for xs e
    using that tr(2) hook_not_call needs_login_other by (auto simp: list_all_iff)
  ultimately have "guarded needs_login ((trace c @ es) @ hs)"
    using inv(1) by (intro guarded_append guarded_extend)
  then show ?thesis using tr by simp
qed

lemma login_keeps:
  assumes "login_inv c" and r: "round srv c True c'"
  shows "login_inv c'"
proof -
  have inv: "guarded needs_login (trace c)" "\<not> hijacked c"
    "state c = stateTransaction \<longleftrightarrow> list_ex login_ok (trace c)"
    using assms(1) by (simp_all add: login_inv_def)
  obtain es hs where tr: "trace c' = trace c @ es @ hs" "list_all is_hook hs"
    and es: "state c' = stateTransaction \<Longrightarrow> state c = stateTransaction \<or> list_ex login_ok es"
      "list_ex login_ok es \<Longrightarrow> state c' = stateTransaction \<or> hijacked c'"
    by (rule round_events [OF r]) metis
  have "\<not> hijacked c'" using round_continues(3) [OF r] inv(2) by blast
  moreover have "state c' = stateTransaction \<longleftrightarrow> list_ex login_ok (trace c')"
    using es inv(3) tr hooks_harmless(1) [OF tr(2)] round_counts(4) [OF r] \<open>\<not> hijacked c'\<close> by auto
  ultimately show ?thesis
    using login_round [OF inv(1) inv(3) r] by (simp add: login_inv_def)
qed

interpretation logins: loop_invariant srv login_inv for srv
  by unfold_locales (rule login_keeps)

text \<open>Credentials reach the session only through TLS, unless the options allow it.\<close>

definition needs_tls :: "'s Server \<Rightarrow> bool \<Rightarrow> event list \<Rightarrow> event \<Rightarrow> bool" where
  "needs_tls srv tls0 xs e =
     (case e of
        EvCall k r \<Rightarrow>
          is_login k \<longrightarrow> InsecureAuth (opts srv) \<or> tls0 \<or> EvTLS True \<in> set xs \<or> EvSetTLS True \<in> set xs
      | _ \<Rightarrow> True)"

definition tls_inv :: "'s Server \<Rightarrow> bool \<Rightarrow> 's Conn \<Rightarrow> bool" where
  "tls_inv srv tls0 c \<longleftrightarrow>
     guarded (needs_tls srv tls0) (trace c) \<and> (isTLS c \<longrightarrow> tls0 \<or> EvTLS True \<in> set (trace c) \<or> EvSetTLS True \<in> set (trace c))"

lemma needs_tls_other: "\<not> is_call e \<Longrightarrow> needs_tls srv tls0 xs e"
  by (cases e) (auto simp: needs_tls_def)

lemma tls_round:
  assumes "tls_inv srv tls0 c" and r: "round srv c b c'"
  shows "tls_inv srv tls0 c'"
proof -
  have inv: "guarded (needs_tls srv tls0) (trace c)" "isTLS c \<longrightarrow> tls0 \<or> EvTLS True \<in> set (trace c) \<or> EvSetTLS True \<in> set (trace c)"
    using assms(1) by (simp_all add: tls_inv_def)
  obtain es hs where tr: "trace c' = trace c @ es @ hs" "list_all is_hook hs"
    and es: "list_all (permitted srv c) es" "isTLS c' \<Longrightarrow> isTLS c \<or> EvTLS True \<in> set es \<or> EvSetTLS True \<in> set es"
    by (rule round_events [OF r]) metis
  have "needs_tls srv tls0 (trace c @ xs) e" if "e \<in> set es" for xs e
  proof (cases e)
    case (EvCall k ret)
    have "permitted srv c e" using es(1) that by (simp add: list_all_iff)
    then show ?thesis using inv(2) EvCall by (auto simp: needs_tls_def authAllowed_def)
  qed (simp_all add: needs_tls_def)
  moreover have "needs_tls srv tls0 xs e" if "e \<in> set hs" for xs e
    using that tr(2) hook_not_call [of e] by (intro needs_tls_other) (simp add: list_all_iff)
  ultimately have "guarded (needs_tls srv tls0) ((trace c @ es) @ hs)"
    using inv(1) by (intro guarded_append)
  then show ?thesis using tr es(2) inv(2) by (auto simp: tls_inv_def)
qed

interpretation tls: loop_invariant srv "tls_inv srv tls0" for srv tls0
  by unfold_locales (rule tls_round)

text \<open>The error limit: it is not reached as long as the loop goes on, and every failed login counts.\<close>

definition limit_inv :: "'s Server \<Rightarrow> 's Conn \<Rightarrow> bool" where
  "limit_inv srv c \<longleftrightarrow>
     \<not> panicking c \<and> \<not> maxErrorsExceeded srv c
     \<and> (AuthFailuresExemptFromMaxErrors (opts srv)
        \<or> int (length (filter failed_login (trace c))) \<le> errorCount c)"

lemma limit_keeps:
  assumes "limit_inv srv c" and r: "round srv c True c'"
  shows "limit_inv srv c'"
proof -
  have inv: "\<not> panicking c" "\<not> maxErrorsExceeded srv c" "AuthFailuresExemptFromMaxErrors (opts srv)
      \<or> int (length (filter failed_login (trace c))) \<le> errorCount c"
    using assms(1) by (simp_all add: limit_inv_def)
  obtain es hs where tr: "trace c' = trace c @ es @ hs" "list_all is_hook hs"
    and es: "AuthFailuresExemptFromMaxErrors (opts srv) \<or> panicking c'
      \<or> int (length (filter failed_login es)) \<le> errorCount c' - errorCount c"
    by (rule round_events [OF r]) metis
  note cont = round_continues(1,5) [OF r]
  show ?thesis
    using inv es cont tr(1) hooks_harmless(2) [OF tr(2)]
    by (auto simp: limit_inv_def maxErrorsExceeded_def)
qed

interpretation limit: loop_invariant srv "limit_inv srv" for srv
  by unfold_locales (rule limit_keeps)

text \<open>Before the loop is left nothing has asked the session to commit, and nothing has been closed.\<close>

fun is_close :: "event \<Rightarrow> bool" where
  "is_close EvSessionClose = True"
| "is_close EvNetClose = True"
| "is_close EvOnPanic = True"
| "is_close _ = False"

definition open_inv :: "'s Conn \<Rightarrow> bool" where
  "open_inv c \<longleftrightarrow> list_all (Not \<circ> is_quit) (trace c) \<and> list_all (Not \<circ> is_close) (trace c)"

lemma permitted_not_close: "permitted srv c e \<Longrightarrow> \<not> is_close e"
  by (cases e) auto

lemma hook_not_close: "is_hook e \<Longrightarrow> \<not> is_close e"
  by (cases e) auto

lemma round_no_close:
  assumes "list_all (Not \<circ> is_close) (trace c)" and r: "round srv c b c'"
  shows "list_all (Not \<circ> is_close) (trace c')"
proof -
  obtain es hs where tr: "trace c' = trace c @ es @ hs" "list_all is_hook hs" "list_all (permitted srv c) es"
    by (rule round_events [OF r]) metis
  then have "list_all (Not \<circ> is_close) es" "list_all (Not \<circ> is_close) hs"
    using permitted_not_close [of srv c] hook_not_close by (auto simp: list_all_iff)
  then show ?thesis using assms(1) tr(1) by simp
qed

lemma open_keeps:
  assumes "open_inv c" and r: "round srv c True c'"
  shows "open_inv c'"
proof -
  obtain es hs where tr: "trace c' = trace c @ es @ hs" "list_all is_hook hs"
    and es: "list_all (Not \<circ> is_quit) es"
    by (rule round_events [OF r]) metis
  have "list_all (Not \<circ> is_quit) hs"
    using tr(2) hook_not_call by (auto simp: list_all_iff)
  with es assms(1) tr(1) round_no_close [OF _ r] show ?thesis by (simp add: open_inv_def)
qed

interpretation opened: loop_invariant srv open_inv for srv
  by unfold_locales (rule open_keeps)

text \<open>With a timeout configured no read blocks.\<close>

definition awake_inv :: "'s Server \<Rightarrow> 's Conn \<Rightarrow> bool" where
  "awake_inv srv c \<longleftrightarrow>
     (IdleTimeout (opts srv) > 0 \<or> AbsoluteSessionTimeout (opts srv) > 0 \<longrightarrow> \<not> blocked c)"

lemma awake_round:
  assumes "awake_inv srv c" and r: "round srv c b c'"
  shows "awake_inv srv c'"
  using assms(1) round_counts(5) [OF r] by (auto simp: awake_inv_def)

interpretation awake: loop_invariant srv "awake_inv srv" for srv
  by unfold_locales (rule awake_round)

text \<open>With the absolute timeout and the write timeout the clock is bounded.\<close>

definition alive_inv :: "'s Server \<Rightarrow> int \<Rightarrow> int \<Rightarrow> 's Conn \<Rightarrow> bool" where
  "alive_inv srv t0 l0 c \<longleftrightarrow>
     startTime c = t0 \<and> (AbsoluteSessionTimeout (opts srv) > 0 \<longrightarrow> timed srv c \<and> lag (netConn c) \<le> l0
       \<and> now (netConn c) + credit c \<le> t0 + AbsoluteSessionTimeout (opts srv) + 2 * WriteTimeout (opts srv) + l0)"

lemma alive_round:
  assumes "alive_inv srv t0 l0 c" and r: "round srv c b c'"
  shows "alive_inv srv t0 l0 c'"
  using assms(1) round_counts(3,6) [OF r] by (auto simp: alive_inv_def on_time_def last_instant_def)

interpretation alive: loop_invariant srv "alive_inv srv t0 l0" for srv t0 l0
  by unfold_locales (rule alive_round)

text \<open>The connection stays well-formed, and so is every call it makes.\<close>

definition formed_inv :: "'s Conn \<Rightarrow> bool" where
  "formed_inv c \<longleftrightarrow> formed c \<and> list_all wf_event (trace c)"

lemma hooks_wf: "list_all is_hook hs \<Longrightarrow> list_all wf_event hs"
proof (induction hs)
  case (Cons e hs)
  then show ?case by (cases e) auto
qed simp

lemma formed_round:
  assumes "formed_inv c" and r: "round srv c b c'"
  shows "formed_inv c'"
proof -
  obtain es hs where "trace c' = trace c @ es @ hs" "list_all is_hook hs"
    and "formed c \<Longrightarrow> formed c' \<and> list_all wf_event es"
    by (rule round_events [OF r]) metis
  then show ?thesis using assms(1) hooks_wf by (auto simp: formed_inv_def)
qed

interpretation well: loop_invariant srv formed_inv for srv
  by unfold_locales (rule formed_round)

text \<open>For the session a connection is the sequence of the calls in its trace.\<close>

definition run_inv :: "'s Server \<Rightarrow> 's \<Rightarrow> 's Conn \<Rightarrow> bool" where
  "run_inv srv s0 c \<longleftrightarrow> session_run srv (trace c) s0 (session c)"

lemma session_run_hooks: "list_all is_hook hs \<Longrightarrow> session_run srv hs s s' \<longleftrightarrow> s = s'"
proof (induction hs)
  case (Cons e hs)
  then show ?case by (cases e) auto
qed simp

lemma run_round:
  assumes "run_inv srv s0 c" and r: "round srv c b c'"
  shows "run_inv srv s0 c'"
proof -
  obtain q d hs where h: "handles srv q c d" and tr: "trace c' = trace d @ hs" "list_all is_hook hs"
    and s: "session c' = session d"
    using r unfolding round_def by - (elim exE conjE, rule that)
  have d: "prefix (trace c) (trace d)" "session_run srv (new_events c d) (session c) (session d)"
    using h unfolding handles_def by - (elim conjE, assumption)+
  then have "trace d = trace c @ new_events c d" by (auto simp: new_events_def prefix_def)
  then have "session_run srv (trace d) s0 (session d)"
    using assms(1) d(2) session_run_append [of srv "trace c" "new_events c d" s0 "session d"]
    unfolding run_inv_def by metis
  then show ?thesis
    unfolding run_inv_def tr(1) s session_run_append session_run_hooks [OF tr(2)] by blast
qed

interpretation runs: loop_invariant srv "run_inv srv s0" for srv s0
  by unfold_locales (rule run_round)

section \<open>The whole connection\<close>

text \<open>
  \<open>serve\<close> up to the deferred \<open>close\<close>: nothing but the greeting, or the greeting and the
  loop.
\<close>

definition served :: "'s Server \<Rightarrow> 's Conn \<Rightarrow> 's Conn" where
  "served srv c =
     (case flush (ok (Greeting (opts srv)) c) of (Some e, c) \<Rightarrow> c | (None, c) \<Rightarrow> serve_loop srv c)"

lemma serve_served:
  "serve srv c =
     (if fst (flush (ok (Greeting (opts srv)) c)) = None \<and> blocked (served srv c) then served srv c
      else close srv (served srv c))"
  by (simp add: serve_def served_def Let_def case_prod_beta split: option.split)

lemma greeted_frame:
  "trace (snd (flush (ok g c))) = trace c" "state (snd (flush (ok g c))) = state c"
  by simp_all

lemma served_invariant:
  assumes "loop_invariant srv I" "I c'" "c' = snd (flush (ok (Greeting (opts srv)) c))"
  shows "I (served srv c) \<or> (\<exists>d. I d \<and> round srv d False (served srv c))"
proof (cases "fst (flush (ok (Greeting (opts srv)) c))")
  case (Some e)
  then show ?thesis using assms(2,3) by (simp add: served_def case_prod_beta)
next
  case None
  obtain d where "I d" "round srv d False (serve_loop srv c')"
    by (rule loop_invariant.last_round [OF assms(1,2)])
  with None assms(3) show ?thesis by (auto simp: served_def case_prod_beta)
qed

end
