(* ===== verification/Guarantees.thy ===== *)
theory Guarantees
  imports Runs
begin

text \<open>
  What the server guarantees of a whole connection, from the greeting to the deferred close: the
  theorems on the trace of \<open>serve\<close>, read off the loop invariants.
\<close>

section \<open>The trace of a connection\<close>

definition close_panics :: "'s Server \<Rightarrow> 's \<Rightarrow> bool" where
  "close_panics srv s \<longleftrightarrow> fst (s_Close (meths srv) s) = Panic"

definition closing :: "'s Server \<Rightarrow> 's Conn \<Rightarrow> event list" where
  "closing srv c = EvSessionClose # (if hijacked c \<or> close_panics srv (session c) then [] else [EvNetClose])"

lemma close_frame [simp]:
  "trace (close srv c) = trace c @ closing srv c" "state (close srv c) = state c"
  "errorCount (close srv c) = errorCount c" "startTime (close srv c) = startTime c"
  "hijacked (close srv c) = hijacked c" "panicking (close srv c) \<longleftrightarrow> panicking c \<or> close_panics srv (session c)"
  "blocked (close srv c) = blocked c" "netConn (close srv c) = netConn c"
  "reader (close srv c) = reader c" "session (close srv c) = snd (s_Close (meths srv) (session c))"
  "formed (close srv c) = formed c"
  by (auto simp: close_def closing_def close_panics_def case_prod_beta Let_def)

lemma serve_trace: "\<exists>ys. trace (serve srv c) = trace (served srv c) @ ys \<and> set ys \<subseteq> {EvSessionClose, EvNetClose}"
  by (auto simp: serve_served closing_def)

lemma newConn_frame [simp]:
  "trace (newConn srv s tls n) = []" "state (newConn srv s tls n) = stateAuthorization"
  "errorCount (newConn srv s tls n) = 0" "startTime (newConn srv s tls n) = now n" "isTLS (newConn srv s tls n) = tls"
  "hijacked (newConn srv s tls n) = False" "panicking (newConn srv s tls n) = False"
  "blocked (newConn srv s tls n) = False" "netConn (newConn srv s tls n) = n" "reader (newConn srv s tls n) = []"
  "session (newConn srv s tls n) = s" "username (newConn srv s tls n) = []" "closePending (newConn srv s tls n) = False"
  "writer (newConn srv s tls n) = newWriter srv" "cmdCtx (newConn srv s tls n) = conn_ctx srv (now n)"
  by (simp_all add: newConn_def)

abbreviation greeted :: "'s Server \<Rightarrow> 's \<Rightarrow> bool \<Rightarrow> Net \<Rightarrow> 's Conn" where
  "greeted srv s tls n \<equiv> snd (flush (ok (Greeting (opts srv)) (newConn srv s tls n)))"

text \<open>An event of the connection that is no close happened before the close.\<close>

lemma serve_event:
  assumes "trace (serve srv c) = xs @ e # ys" "e \<noteq> EvSessionClose" "e \<noteq> EvNetClose"
  obtains zs where "trace (served srv c) = xs @ e # zs" "set ys \<subseteq> set zs \<union> {EvSessionClose, EvNetClose}"
proof -
  obtain cs where cs: "trace (serve srv c) = trace (served srv c) @ cs" "set cs \<subseteq> {EvSessionClose, EvNetClose}"
    using serve_trace by blast
  then have eq: "trace (served srv c) @ cs = xs @ e # ys" using assms(1) by simp
  have "\<not> length (trace (served srv c)) \<le> length xs"
  proof
    assume "length (trace (served srv c)) \<le> length xs"
    then obtain us where "cs = us @ e # ys"
      using eq by (auto simp: append_eq_append_conv2)
    with cs(2) assms(2,3) show False by auto
  qed
  then obtain zs where "trace (served srv c) = xs @ e # zs" "ys = zs @ cs"
    using eq by (auto simp: append_eq_append_conv2 append_eq_Cons_conv)
  with cs(2) show thesis by (intro that [of zs]) auto
qed

section \<open>Authentication\<close>

lemma served_guarded: "guarded needs_login (trace (served srv (newConn srv s tls n)))"
proof -
  have "login_inv (greeted srv s tls n)" by (simp add: login_inv_def)
  then show ?thesis
    using served_invariant [OF logins.loop_invariant_axioms _ refl] login_round
    by (metis login_inv_def)
qed

text \<open>
  C1: session methods are called in their states. No method of the TRANSACTION state (Stat, List, Uidl,
  Retr, Top, Dele, Rset, Noop, Quit) is ever called on a connection before Login or AuthenticatePlain
  has returned without an error, and after that neither of the two is called again.
\<close>

theorem calls_follow_states:
  assumes "trace (serve srv (newConn srv s tls n)) = xs @ EvCall k r # ys"
  shows "(is_transaction k \<longrightarrow> list_ex login_ok xs) \<and> (is_login k \<longrightarrow> \<not> list_ex login_ok xs)"
proof -
  obtain zs where "trace (served srv (newConn srv s tls n)) = xs @ EvCall k r # zs"
    by (rule serve_event [OF assms]) auto
  with served_guarded [of srv s tls n] have "needs_login xs (EvCall k r)" by (auto dest: guardedD)
  then show ?thesis by (simp add: needs_login_def)
qed

text \<open>
  C2: without InsecureAuth, on a connection that did not start with TLS, credentials are handed to
  the session only after a TLS handshake has succeeded, or after the application's own handler for
  unknown commands has declared the connection to be secure with SetTLS.
\<close>

theorem login_needs_tls:
  assumes "trace (serve srv (newConn srv s False n)) = xs @ EvCall k r # ys" and "is_login k"
    and "\<not> InsecureAuth (opts srv)"
  shows "EvTLS True \<in> set xs \<or> EvSetTLS True \<in> set xs"
proof -
  have "tls_inv srv False (greeted srv s False n)" by (simp add: tls_inv_def)
  then have "tls_inv srv False (served srv (newConn srv s False n))"
    using served_invariant [OF tls.loop_invariant_axioms _ refl] tls_round by metis
  then have g: "guarded (needs_tls srv False) (trace (served srv (newConn srv s False n)))"
    by (simp add: tls_inv_def)
  obtain zs where "trace (served srv (newConn srv s False n)) = xs @ EvCall k r # zs"
    by (rule serve_event [OF assms(1)]) auto
  with g have "needs_tls srv False xs (EvCall k r)" by (auto dest: guardedD)
  with assms(2,3) show ?thesis by (simp add: needs_tls_def)
qed

lemma failed_le_calls: "length (filter failed_login es) \<le> length (filter is_call es)"
proof (induction es)
  case (Cons e es)
  then show ?case by (cases e) auto
qed simp

text \<open>
  C3: the error limit bounds guessing. With MaxErrors set and failed logins not exempt, at most
  MaxErrors login attempts fail on one connection, whatever the client sends.
\<close>

theorem failed_logins_bounded:
  assumes "MaxErrors (opts srv) > 0" and "\<not> AuthFailuresExemptFromMaxErrors (opts srv)"
  shows "int (length (filter failed_login (trace (serve srv (newConn srv s tls n))))) \<le> MaxErrors (opts srv)"
proof -
  let ?d = "served srv (newConn srv s tls n)"
  have i0: "limit_inv srv (greeted srv s tls n)"
    using assms by (simp add: limit_inv_def maxErrorsExceeded_def)
  have "int (length (filter failed_login (trace ?d))) \<le> MaxErrors (opts srv)"
    using served_invariant [OF limit.loop_invariant_axioms i0 refl]
  proof
    assume "limit_inv srv ?d"
    then show ?thesis using assms by (simp add: limit_inv_def maxErrorsExceeded_def)
  next
    assume "\<exists>c. limit_inv srv c \<and> round srv c False ?d"
    then obtain c where c: "limit_inv srv c" and r: "round srv c False ?d" by blast
    obtain es hs where tr: "trace ?d = trace c @ es @ hs" "list_all is_hook hs" "length (filter is_call es) \<le> 1"
      by (rule round_events [OF r]) metis
    with c assms hooks_harmless(2) [OF tr(2)] failed_le_calls [of es] show ?thesis
      by (simp add: limit_inv_def maxErrorsExceeded_def)
  qed
  moreover obtain ys where "trace (serve srv (newConn srv s tls n)) = trace ?d @ ys"
    and "set ys \<subseteq> {EvSessionClose, EvNetClose}"
    using serve_trace by blast
  then have "filter failed_login (trace (serve srv (newConn srv s tls n))) = filter failed_login (trace ?d)"
    by (auto simp: filter_empty_conv)
  ultimately show ?thesis by simp
qed

section \<open>The session's view\<close>

lemma served_run:
  "session_run srv (trace (served srv (newConn srv s tls n))) s (session (served srv (newConn srv s tls n)))"
proof -
  have "run_inv srv s (greeted srv s tls n)" by (simp add: run_inv_def)
  then show ?thesis
    using served_invariant [OF runs.loop_invariant_axioms _ refl] run_round by (metis run_inv_def)
qed

lemma serve_refines_run:
  "session_run srv (trace (serve srv (newConn srv s tls n))) s (session (serve srv (newConn srv s tls n)))"
  using served_run [of srv s tls n] by (auto simp: serve_served closing_def session_run_append)


text \<open>
  C9: what the session and the buffers can count on. Whatever the client sends, every call the session gets
  is well-formed: message numbers are between 1 and \<open>2\<^sup>3\<^sup>1 - 1\<close> (0 only where it means all messages), line
  counts are not negative, names and identities hold no control character, and PASS never comes with an empty
  name or password. When the connection ends, neither of its buffers holds more than its 4096 bytes, and its
  error count is not negative.
\<close>

theorem session_calls_well_formed:
  "list_all wf_event (trace (serve srv (newConn srv s tls n))) \<and> formed (serve srv (newConn srv s tls n))"
proof -
  have "formed (newConn srv s tls n)" by (simp add: formed_def newWriter_def NewWriter_def)
  then have "formed_inv (greeted srv s tls n)" by (simp add: formed_inv_def)
  then have "formed_inv (served srv (newConn srv s tls n))"
    using served_invariant [OF well.loop_invariant_axioms _ refl] formed_round by metis
  then show ?thesis by (auto simp: serve_served closing_def formed_inv_def)
qed

section \<open>Closing\<close>

lemma served_no_close: "list_all (Not \<circ> is_close) (trace (served srv (newConn srv s tls n)))"
proof -
  have "open_inv (greeted srv s tls n)" by (simp add: open_inv_def)
  then show ?thesis
    using served_invariant [OF opened.loop_invariant_axioms _ refl] round_no_close
    by (metis open_inv_def)
qed

text \<open>
  C8: the session is closed exactly once, in the state its calls have left, as the last thing that happens
  to it, and so is the network connection unless it was hijacked or the session's Close panicked (then the
  recovery closes it); only a read that waits for ever keeps a connection from getting there.
\<close>

theorem closed_once_at_the_end:
  assumes "\<not> blocked (serve srv (newConn srv s tls n))"
  shows "\<exists>es t. trace (serve srv (newConn srv s tls n)) =
      es @ EvSessionClose #
        (if hijacked (serve srv (newConn srv s tls n)) \<or> close_panics srv t then [] else [EvNetClose])
    \<and> session_run srv es s t \<and> EvSessionClose \<notin> set es \<and> EvNetClose \<notin> set es"
proof -
  let ?d = "served srv (newConn srv s tls n)"
  have "serve srv (newConn srv s tls n) = close srv ?d"
    using assms by (auto simp: serve_served split: if_splits)
  moreover have "EvSessionClose \<notin> set (trace ?d)" "EvNetClose \<notin> set (trace ?d)"
    using served_no_close [of srv s tls n] by (auto simp: list_all_iff)
  ultimately show ?thesis
    using served_run [of srv s tls n] by (intro exI [of _ "trace ?d"] exI [of _ "session ?d"]) (simp add: closing_def)
qed

lemma calls_after_first:
  assumes "length (filter is_call (xs @ e # ys)) \<le> 1" "is_call e"
  shows "filter is_call ys = []"
  using assms by simp

text \<open>
  C14: Quit, which commits the deletions, is the last call the session gets before Close: after it no
  other session method is called, whether Quit succeeded or not.
\<close>

theorem quit_is_last_call:
  assumes "trace (serve srv (newConn srv s tls n)) = xs @ EvCall CQuit r # ys"
  shows "filter is_call ys = []"
proof -
  let ?d = "served srv (newConn srv s tls n)"
  obtain zs where zs: "trace ?d = xs @ EvCall CQuit r # zs" "set ys \<subseteq> set zs \<union> {EvSessionClose, EvNetClose}"
    by (rule serve_event [OF assms]) auto
  have i0: "open_inv (greeted srv s tls n)" by (simp add: open_inv_def)
  have quit: "\<not> open_inv ?d" using zs by (auto simp: open_inv_def list_all_iff)
  then obtain c where c: "open_inv c" and rd: "round srv c False ?d"
    using served_invariant [OF opened.loop_invariant_axioms i0 refl] by blast
  obtain es hs where tr: "trace ?d = trace c @ es @ hs" "list_all is_hook hs" "length (filter is_call es) \<le> 1"
    by (rule round_events [OF rd]) metis
  have nq: "EvCall CQuit r \<notin> set (trace c)" using c by (auto simp: open_inv_def list_all_iff)
  have nh: "filter is_call hs = []" by (rule hooks_harmless(6) [OF tr(2)])
  have eq: "trace c @ es @ hs = xs @ EvCall CQuit r # zs" using tr(1) zs(1) by simp
  have "\<not> length xs < length (trace c)"
  proof
    assume "length xs < length (trace c)"
    then have "(trace c @ es @ hs) ! length xs = trace c ! length xs" by (simp add: nth_append)
    then have "trace c ! length xs = EvCall CQuit r" using eq by simp
    with \<open>length xs < length (trace c)\<close> nq show False by (metis nth_mem)
  qed
  moreover have "es @ hs = drop (length (trace c)) (xs @ EvCall CQuit r # zs)"
    using eq by (metis append_eq_conv_conj)
  ultimately have us: "es @ hs = drop (length (trace c)) xs @ EvCall CQuit r # zs" by simp
  have "length (filter is_call (es @ hs)) \<le> 1" using tr(3) nh by simp
  then have "filter is_call zs = []" unfolding us by simp
  then show ?thesis using zs(2) by (auto simp: filter_empty_conv)
qed

section \<open>Time\<close>

lemma not_blocked:
  assumes "IdleTimeout (opts srv) > 0 \<or> AbsoluteSessionTimeout (opts srv) > 0"
  shows "\<not> blocked (serve srv (newConn srv s tls n))"
proof -
  have "awake_inv srv (greeted srv s tls n)" by (simp add: awake_inv_def)
  then have "awake_inv srv (served srv (newConn srv s tls n))"
    using served_invariant [OF awake.loop_invariant_axioms _ refl] awake_round by metis
  then show ?thesis using assms by (auto simp: serve_served awake_inv_def)
qed


text \<open>
  C22: how long a connection can last. With AbsoluteSessionTimeout and WriteTimeout positive, and a session
  whose methods return when their context is done, as the interface asks of them, counting the time in
  these methods and the time the server waits for the client in reads, in TLS handshakes, in the back-off
  after errors and in writes that a client which does not read holds up, the connection is over at most AbsoluteSessionTimeout
  and two WriteTimeouts after it started, one for each of the two writers a connection can have, before
  and after STLS; to which comes the time for which a slow client holds up writes that succeed.
\<close>

theorem absolute_timeout_bounds_session:
  assumes "AbsoluteSessionTimeout (opts srv) > 0" and "WriteTimeout (opts srv) > 0" and "honours (meths srv)"
  shows "now (netConn (serve srv (newConn srv s tls n))) \<le>
    now n + AbsoluteSessionTimeout (opts srv) + 2 * WriteTimeout (opts srv) + lag n"
proof -
  let ?c = "newConn srv s tls n"
  have "timed srv ?c"
    using assms by (auto simp: timed_def newWriter_def NewWriter_def conn_ctx_def earlier_Some split: option.split)
  moreover have "on_time srv ?c (greeted srv s tls n)" by simp
  ultimately have "alive_inv srv (now n) (lag n) (greeted srv s tls n)"
    using credit_bounds [of srv ?c] assms(1) by (auto simp: alive_inv_def on_time_def last_instant_def)
  then have "alive_inv srv (now n) (lag n) (served srv ?c)"
    using served_invariant [OF alive.loop_invariant_axioms _ refl] alive_round by metis
  moreover from this have "0 \<le> credit (served srv ?c)"
    using assms credit_bounds by (auto simp: alive_inv_def)
  ultimately show ?thesis using assms by (auto simp: serve_served alive_inv_def last_instant_def)
qed

text \<open>The back-off after an error is at most MaxErrorDelay, if that is positive.\<close>

lemma errorDelay_capped:
  assumes "MaxErrorDelay (opts srv) > 0"
  shows "errorDelay srv c \<le> MaxErrorDelay (opts srv)"
  using assms by (auto simp: errorDelay_def Let_def)

end
