(* ===== verification/Lines.thy ===== *)
theory Lines
  imports Client Guarantees
begin

text \<open>
  What the two \<^verbatim>\<open>readLine\<close> loops return, whatever segments the peer's bytes arrive in, and what
  the responses of the server are, byte for byte, on a connection that accepts writes.
\<close>

section \<open>Reading a line\<close>

lemma readLine_loop_pending:
  assumes "pending buf n evs (l @ LF # rest)" and "LF \<notin> set l"
  shows "(int (length (line @ strip_cr l)) \<le> m \<longrightarrow>
      (\<exists>buf' n'. readLine_loop m line buf n = (Some (Inr (line @ strip_cr l)), buf', n')
         \<and> pending buf' n' evs rest))
    \<and> (int (length (line @ strip_cr l)) > m \<longrightarrow>
      (\<exists>buf' n'. readLine_loop m line buf n = (Some (Inl ErrLineTooLong), buf', n')))"
  using assms
proof (induction "length l" arbitrary: l line buf n rule: less_induct)
  case less
  from ReadLine_pending [OF less.prems] show ?case
  proof (elim disjE exE conjE)
    fix buf' n' assume "ReadLine buf n = (LLine (strip_cr l) False, buf', n')" "pending buf' n' evs rest"
    then show ?thesis by (auto simp: readLine_loop.simps [of m line buf n])
  next
    fix c k buf' n'
    assume rl: "ReadLine buf n = (LLine c True, buf', n')" and c: "c \<noteq> []" "l = c @ k"
      "strip_cr l = c @ strip_cr k" and p: "pending buf' n' evs (k @ LF # rest)"
    have ih: "(int (length ((line @ c) @ strip_cr k)) \<le> m \<longrightarrow>
        (\<exists>b2 n2. readLine_loop m (line @ c) buf' n' = (Some (Inr ((line @ c) @ strip_cr k)), b2, n2)
           \<and> pending b2 n2 evs rest))
      \<and> (int (length ((line @ c) @ strip_cr k)) > m \<longrightarrow>
        (\<exists>b2 n2. readLine_loop m (line @ c) buf' n' = (Some (Inl ErrLineTooLong), b2, n2)))"
      by (rule less.hyps) (use c p less.prems(2) in auto)
    then show ?thesis
      using rl c(3) by (cases "int (length (line @ c)) > m") (auto simp: readLine_loop.simps [of m line buf n])
  qed
qed

lemma client_readLine_loop_pending:
  assumes "pending buf n evs (l @ LF # rest)" and "LF \<notin> set l" and "int (length (line @ strip_cr l)) \<le> m"
  shows "\<exists>buf' n'. client_readLine_loop m line buf n = (Done (line @ strip_cr l), buf', n')
     \<and> pending buf' n' evs rest \<and> same_peer n n'"
  using assms
proof (induction "length l" arbitrary: l line buf n rule: less_induct)
  case less
  from ReadLine_pending [OF less.prems(1,2)] show ?case
  proof (elim disjE exE conjE)
    fix buf' n' assume "ReadLine buf n = (LLine (strip_cr l) False, buf', n')" "pending buf' n' evs rest"
    then show ?thesis
      using less.prems(3) by (auto simp: client_readLine_loop.simps [of m line buf n] dest: ReadLine_same_peer)
  next
    fix c k buf' n'
    assume rl: "ReadLine buf n = (LLine c True, buf', n')" and c: "c \<noteq> []" "l = c @ k"
      "strip_cr l = c @ strip_cr k" and p: "pending buf' n' evs (k @ LF # rest)"
    have "\<exists>b2 n2. client_readLine_loop m (line @ c) buf' n' = (Done ((line @ c) @ strip_cr k), b2, n2)
        \<and> pending b2 n2 evs rest \<and> same_peer n' n2"
      by (rule less.hyps) (use c p less.prems(2,3) in auto)
    then show ?thesis
      using rl c(3) less.prems(3) same_peer_trans [OF ReadLine_same_peer [OF rl]]
      by (auto simp: client_readLine_loop.simps [of m line buf n])
  qed
qed

lemma client_readLine_loop_same_peer:
  "client_readLine_loop m line buf n = (r, buf', n') \<Longrightarrow> same_peer n n'"
proof (induction m line buf n rule: client_readLine_loop.induct)
  case (1 m line buf n)
  obtain q b k where rl: "ReadLine buf n = (q, b, k)" by (metis prod_cases3)
  note sp = ReadLine_same_peer [OF rl]
  show ?case
  proof (cases q)
    case (LLine chunk pre)
    with "1.prems" rl sp "1.IH" [OF rl [symmetric] LLine refl] show ?thesis
      by (auto simp: client_readLine_loop.simps [of m line buf n] Let_def split: if_splits intro: same_peer_trans)
  qed (use "1.prems" rl sp in \<open>auto simp: client_readLine_loop.simps [of m line buf n]\<close>)
qed

lemma client_readLine_loop_deadline:
  "client_readLine_loop m line buf n = (r, buf', n') \<Longrightarrow> rdeadline n = Some d \<Longrightarrow>
     r \<noteq> Blocks \<and> now n' \<le> max (now n) d"
proof (induction m line buf n rule: client_readLine_loop.induct)
  case (1 m line buf n)
  obtain q b k where rl: "ReadLine buf n = (q, b, k)" by (metis prod_cases3)
  note dl = ReadLine_deadline [OF rl "1.prems"(2)]
  have rd: "rdeadline k = Some d"
    using ReadLine_same_peer [OF rl] "1.prems"(2) by (simp add: same_peer_def)
  show ?case
  proof (cases "\<exists>chunk. q = LLine chunk True \<and> int (length (line @ chunk)) \<le> m")
    case True
    then obtain chunk where q: "q = LLine chunk True" "int (length (line @ chunk)) \<le> m" by blast
    then have "client_readLine_loop m (line @ chunk) b k = (r, buf', n')"
      using "1.prems" rl by (simp add: client_readLine_loop.simps [of m line buf n])
    with "1.IH" [OF rl [symmetric] q(1) refl refl] q(2) rd dl show ?thesis by fastforce
  next
    case False
    with "1.prems" rl dl show ?thesis
      by (auto simp: client_readLine_loop.simps [of m line buf n] Let_def split: line_result.splits if_splits)
  qed
qed

text \<open>
  C17: the server reads whole lines. If the bytes of a line and its line feed arrive before the
  deadline, in whatever segments and read-aheads, readLine returns exactly that line without its line
  end and leaves what follows to be read next; or, if the line is longer than MaxLineLength, it
  reports that.
\<close>

theorem readLine_whole_lines:
  assumes "pending (reader c) (netConn c) evs (l @ LF # rest)" and "LF \<notin> set l"
  shows "(int (length (strip_cr l)) \<le> MaxLineLength (opts srv) \<longrightarrow>
      (\<exists>c'. readLine srv c = (Some (Inr (strip_cr l)), c') \<and> pending (reader c') (netConn c') evs rest))
    \<and> (int (length (strip_cr l)) > MaxLineLength (opts srv) \<longrightarrow>
      (\<exists>c'. readLine srv c = (Some (Inl ErrLineTooLong), c')))"
  using readLine_loop_pending [OF assms, of "[]" "MaxLineLength (opts srv)"]
  by (auto simp: readLine_def)

lemma readLine_loop_bound:
  "readLine_loop m line buf n = (Some (Inr l), buf', n') \<Longrightarrow> int (length l) \<le> m"
proof (induction m line buf n rule: readLine_loop.induct)
  case (1 m line buf n)
  obtain q b k where rl: "ReadLine buf n = (q, b, k)" by (metis prod_cases3)
  then show ?case
    using "1.prems" "1.IH" [OF rl [symmetric] _ refl refl]
    by (cases q) (auto simp: readLine_loop.simps [of m line buf n] Let_def split: if_splits)
qed

section \<open>Responses\<close>

text \<open>The bytes the connection is committed to send.\<close>

definition out :: "'s Conn \<Rightarrow> bytes" where
  "out c = stream (writer c, netConn c)"

text \<open>
  A connection whose client reads what it is sent. Without \<open>WriteTimeout\<close> no other write deadline may
  be in force.
\<close>

definition sound :: "'s Conn \<Rightarrow> bool" where
  "sound c \<longleftrightarrow>
     healthy (writer c, netConn c) \<and> (wtimeout (writer c) > 0 \<or> wdeadline (netConn c) = None)"

lemma soundI:
  assumes "sound c" "healthy (writer d, netConn d)" "writes_to (writer c, netConn c) (writer d, netConn d)"
  shows "sound d"
  using assms by (auto simp: sound_def writes_to_def)

lemma out_write_string:
  assumes "sound c"
  shows "out (write_string s c) = out c @ s" "sound (write_string s c)"
    "now (netConn (write_string s c)) = now (netConn c)"
proof -
  obtain w n where w: "bufw_Write (writer c, netConn c) s = (None, w, n)" "healthy (w, n)"
    "stream (w, n) = stream (writer c, netConn c) @ s" "now n = now (netConn c)"
    using healthy_bufw_Write [of "(writer c, netConn c)" s] assms by (auto simp: sound_def)
  then show "out (write_string s c) = out c @ s" "sound (write_string s c)"
    "now (netConn (write_string s c)) = now (netConn c)"
    using soundI [OF assms, of "write_string s c"] bufw_Write_writes_to [OF w(1)]
    by (simp_all add: out_def write_string_def)
qed

lemma out_flush:
  assumes "sound c"
  shows "out (snd (flush c)) = out c" "sound (snd (flush c))" "fst (flush c) = None"
    "sent (netConn (snd (flush c))) = out c" "now (netConn (snd (flush c))) = now (netConn c)"
proof -
  obtain w n where w: "Flush (writer c, netConn c) = (None, w, n)" "healthy (w, n)"
    "stream (w, n) = stream (writer c, netConn c)" "sent n = stream (writer c, netConn c)" "now n = now (netConn c)"
    using healthy_Flush [of "(writer c, netConn c)"] assms by (auto simp: sound_def)
  then show "out (snd (flush c)) = out c" "sound (snd (flush c))" "fst (flush c) = None"
    "sent (netConn (snd (flush c))) = out c" "now (netConn (snd (flush c))) = now (netConn c)"
    using soundI [OF assms, of "snd (flush c)"] Flush_writes_to [OF w(1)]
    by (simp_all add: out_def flush_def)
qed

lemma out_update [simp]:
  "out (c\<lparr>session := s\<rparr>) = out c" "out (add_event e c) = out c" "sound (c\<lparr>session := s\<rparr>) = sound c"
  "sound (add_event e c) = sound c" "out (c\<lparr>lastErr := le\<rparr>) = out c" "sound (c\<lparr>lastErr := le\<rparr>) = sound c"
  "out (c\<lparr>closePending := b\<rparr>) = out c" "sound (c\<lparr>closePending := b\<rparr>) = sound c"
  "out (c\<lparr>errorCount := k\<rparr>) = out c" "sound (c\<lparr>errorCount := k\<rparr>) = sound c"
  by (simp_all add: out_def sound_def)

lemma out_elapse [simp]: "out (elapse srv k c) = out c" "sound (elapse srv k c) = sound c"
  by (auto simp: out_def sound_def elapse_def stream_def healthy_def Let_def)

lemma out_fold:
  assumes "sound c"
  shows "out (fold (\<lambda>x. write_string (w x)) xs c) = out c @ concat (map w xs)"
    "sound (fold (\<lambda>x. write_string (w x)) xs c)"
  using assms by (induction xs arbitrary: c) (simp_all add: out_write_string)

definition status_line :: "bytes \<Rightarrow> bytes \<Rightarrow> bytes" where
  "status_line ind msg = (if msg = [] then ind else ind @ '' '' @ sanitizeResponse msg) @ CRLF"

lemma out_ok:
  assumes "sound c"
  shows "out (ok msg c) = out c @ status_line ''+OK'' msg" "sound (ok msg c)"
    "now (netConn (ok msg c)) = now (netConn c)"
  using assms by (simp_all add: ok_def status_line_def out_write_string)

lemma out_err:
  assumes "sound c"
  shows "out (err_resp msg c) = out c @ status_line ''-ERR'' msg" "sound (err_resp msg c)"
    "now (netConn (err_resp msg c)) = now (netConn c)"
  using assms by (simp_all add: err_resp_def status_line_def out_write_string)

lemma lines_of_one: "LF \<notin> set l \<Longrightarrow> lines_of (l @ [LF]) = [l @ [LF]]"
  by (induction l) auto

text \<open>
  C18: a status response is one line. Whatever text a session, a handler or a client's command puts
  into it, carriage returns and line feeds included, +OK and -ERR responses end with their own CRLF
  and contain no other line end.
\<close>

theorem status_response_is_one_line:
  assumes "sound c"
  shows "(\<exists>l. out (ok msg c) = out c @ l @ CRLF \<and> CR \<notin> set l \<and> LF \<notin> set l \<and> HasPrefix l ''+OK'')
    \<and> (\<exists>l. out (err_resp msg c) = out c @ l @ CRLF \<and> CR \<notin> set l \<and> LF \<notin> set l \<and> HasPrefix l ''-ERR'')"
proof -
  have "\<exists>l. status_line ind msg = l @ CRLF \<and> CR \<notin> set l \<and> LF \<notin> set l \<and> HasPrefix l ind"
    if "CR \<notin> set ind" "LF \<notin> set ind" for ind
    using that
    by (intro exI [of _ "if msg = [] then ind else ind @ '' '' @ sanitizeResponse msg"])
      (auto simp: status_line_def HasPrefix_def)
  from this [of "''+OK''"] this [of "''-ERR''"] show ?thesis
    by (simp add: out_ok [OF assms] out_err [OF assms])
qed

section \<open>Bodies\<close>

lemma out_copy_body:
  assumes "sound c" "body_ends b = BodyEOF"
  shows "out (copy_body b c) = out c @ wire_body (concat (body_chunks b))" "sound (copy_body b c)"
proof -
  obtain d d' where d: "io_Copy bufw_Write (body_chunks b) (newDotStuffWriter (writer c, netConn c)) = (None, d)"
    "dsw_Close bufw_Write d = (None, d')" "healthy (dsw_w d')"
    "stream (dsw_w d') = stream (writer c, netConn c) @ wire_body (concat (body_chunks b))"
    using conn_sink.copy_close_ok assms(1) unfolding sound_def by metis
  then have "out (copy_body b c) = out c @ wire_body (concat (body_chunks b))"
    "healthy (writer (copy_body b c), netConn (copy_body b c))"
    using assms(2) by (simp_all add: copy_body_def out_def add_event_def)
  then show "out (copy_body b c) = out c @ wire_body (concat (body_chunks b))" "sound (copy_body b c)"
    using soundI [OF assms(1) _ copy_body_writes_to] by simp_all
qed

definition retr_status :: "body \<Rightarrow> bytes" where
  "retr_status b =
     (case body_octets b of Some k \<Rightarrow> fmt_d k @ '' octets'' | None \<Rightarrow> ''Message follows'')"

lemma handleRetr_out:
  assumes "sound c" "parseMsgNum args = Inr msg" "s_Retr (meths srv) msg (session c) = (Ret (Some b), s')"
    "body_ends b = BodyEOF"
  shows "out (handleRetr srv args c) =
      out c @ status_line ''+OK'' (retr_status b) @ wire_body (concat (body_chunks b))
    \<and> sound (handleRetr srv args c)"
  using assms
  by (cases "body_octets b")
    (simp_all add: handleRetr_def invoke_def retr_status_def out_copy_body out_flush out_ok)

text \<open>
  C12: the answer to RETR. When the session returns a body that can be read to its end, the response is
  the +OK line, with the octet count if the body announces one, then the body dot-stuffed with CRLF
  line ends, then the terminator; the content of the body decides it, not the chunks it is read in.
\<close>

theorem retr_response:
  assumes "sound c" and "parseMsgNum args = Inr msg"
    and "s_Retr (meths srv) msg (session c) = (Ret (Some b), s')" and "body_ends b = BodyEOF"
  shows "out (handleRetr srv args c) =
      out c @ status_line ''+OK'' (retr_status b) @ wire_body (concat (body_chunks b))"
  using handleRetr_out [OF assms] by blast

text \<open>
  C19: a body that breaks off is not passed off as complete. When reading the body fails, the
  connection is marked to be closed and only bytes of the dot-stuffed lines of what was read have
  gone out, of which none is the terminator.
\<close>

theorem broken_body_fails_closed:
  assumes "body_ends b = BodyErr e"
  shows "closePending (copy_body b c) \<and> lastErr (copy_body b c) \<noteq> None
    \<and> prefix (out (copy_body b c)) (out c @ stuffed_body (concat (body_chunks b)))
    \<and> DOT # CRLF \<notin> set (lines_of (stuffed_body (concat (body_chunks b))))"
proof -
  let ?r = "io_Copy bufw_Write (body_chunks b) (newDotStuffWriter (writer c, netConn c))"
  have "prefix (stream (dsw_w (snd ?r))) (stream (writer c, netConn c) @ stuffed_body (concat (body_chunks b)))"
    by (rule conn_sink.copy_content_prefix)
  moreover have "DOT # CRLF \<notin> set (lines_of (stuffed_body (concat (body_chunks b))))"
    using stuff_line_neq_terminator by (auto simp: lines_of_stuffed_body) metis
  ultimately show ?thesis
    using assms by (cases ?r) (auto simp: copy_body_def out_def add_event_def split: option.splits)
qed

end
