(* ===== verification/MemStore.thy ===== *)
theory MemStore
  imports Guarantees
begin

text \<open>
  \<^verbatim>\<open>pop3mem/store.go\<close>: the in-memory maildrop, a \<open>Session\<close> on the shared store and a
  session's own state.

  A \<^verbatim>\<open>*Message\<close> is compared by pointer identity in \<^verbatim>\<open>expunge\<close>, so a message carries its
  address; the store hands addresses out in order. A method runs under the store's lock or touches
  only its own session, so the calls of different sessions interleave as whole steps
  (\<open>mem_step\<close>).
\<close>

section \<open>The store\<close>

record Message =
  Ptr :: nat
  UID :: bytes
  Data :: bytes

record account =
  password :: bytes
  messages :: "Message list"

record Store =
  users :: "bytes \<Rightarrow> account option"
  next_ptr :: nat

definition New_Store :: Store where
  "New_Store = \<lparr>users = (\<lambda>_. None), next_ptr = 0\<rparr>"

definition AddUser :: "bytes \<Rightarrow> bytes \<Rightarrow> Store \<Rightarrow> Store" where
  "AddUser user pw st = st\<lparr>users := (users st)(user := Some \<lparr>password = pw, messages = []\<rparr>)\<rparr>"

text \<open>\<open>fmt_q\<close> is the quoting verb \<^verbatim>\<open>%q\<close> of \<^verbatim>\<open>fmt\<close>, which only the error text uses.\<close>

definition AddMessage :: "(bytes \<Rightarrow> bytes) \<Rightarrow> bytes \<Rightarrow> bytes \<Rightarrow> bytes \<Rightarrow> Store \<Rightarrow> err option \<times> Store" where
  "AddMessage fmt_q user uid data st =
     (case users st user of
        None \<Rightarrow> (Some (ErrPlain (''pop3mem: unknown user '' @ fmt_q user)), st)
      | Some acc \<Rightarrow>
          (let m = \<lparr>Ptr = next_ptr st, UID = uid, Data = data\<rparr>
           in (None,
               st\<lparr>users := (users st)(user := Some (acc\<lparr>messages := messages acc @ [m]\<rparr>)),
                  next_ptr := next_ptr st + 1\<rparr>)))"

definition dummyPassword :: bytes where
  "dummyPassword = NUL # ''pop3mem-nonexistent-account'' @ [NUL]"

definition authenticate :: "bytes \<Rightarrow> bytes \<Rightarrow> Store \<Rightarrow> Message list option" where
  "authenticate user pw st =
     (let acc = users st user;
          stored = (case acc of None \<Rightarrow> dummyPassword | Some a \<Rightarrow> password a);
          match = (stored = pw)
      in case acc of
           None \<Rightarrow> None
         | Some a \<Rightarrow> if \<not> match then None else Some (messages a))"

text \<open>\<^verbatim>\<open>expunge\<close>: the map of messages to remove is the set of their addresses.\<close>

fun expunge_loop :: "nat set \<Rightarrow> Message list \<Rightarrow> Message list \<Rightarrow> int \<Rightarrow> Message list \<times> int" where
  "expunge_loop remove [] kept removed = (kept, removed)"
| "expunge_loop remove (m # ms) kept removed =
     (if Ptr m \<in> remove then expunge_loop remove ms kept (removed + 1)
      else expunge_loop remove ms (kept @ [m]) removed)"

definition expunge :: "bytes \<Rightarrow> nat set \<Rightarrow> Store \<Rightarrow> int \<times> Store" where
  "expunge user remove st =
     (if remove = {} then (0, st)
      else case users st user of
             None \<Rightarrow> (0, st)
           | Some acc \<Rightarrow>
               (let (kept, removed) = expunge_loop remove (messages acc) [] 0
                in (removed, st\<lparr>users := (users st)(user := Some (acc\<lparr>messages := kept\<rparr>))\<rparr>)))"

section \<open>The session\<close>

record session =
  s_username :: bytes
  msgs :: "Message list"
  deleted :: "int set"

definition new_session :: session where
  "new_session = \<lparr>s_username = [], msgs = [], deleted = {}\<rparr>"

type_synonym mem = "Store \<times> session"

definition pop3_error :: "bytes \<Rightarrow> bytes \<Rightarrow> err" where
  "pop3_error code msg = ErrPop3 \<lparr>Error_Code = code, Error_Message = msg, Error_Close = False\<rparr>"

definition mem_Login :: "bytes \<Rightarrow> bytes \<Rightarrow> mem \<Rightarrow> mem login_step" where
  "mem_Login user pw x =
     (let (st, s) = x
      in case authenticate user pw st of
           None \<Rightarrow> LDone (Fail (pop3_error ''AUTH'' ''authentication failed'')) (st, s)
         | Some ms \<Rightarrow> LDone (Ret ()) (st, s\<lparr>s_username := user, msgs := ms\<rparr>))"

definition mem_AuthenticateMechanisms :: "mem \<Rightarrow> bytes list" where
  "mem_AuthenticateMechanisms x = [''PLAIN'']"

definition mem_AuthenticatePlain :: "bytes \<Rightarrow> bytes \<Rightarrow> bytes \<Rightarrow> mem \<Rightarrow> mem login_step" where
  "mem_AuthenticatePlain ident user pw x = mem_Login user pw x"

definition msgAt :: "int \<Rightarrow> session \<Rightarrow> err + Message" where
  "msgAt msg s =
     (if msg < 1 \<or> msg > int (length (msgs s)) then Inl (pop3_error [] ''no such message'')
      else if msg \<in> deleted s then Inl (pop3_error [] ''message is deleted'')
      else Inr (msgs s ! nat (msg - 1)))"

fun stat_loop :: "int set \<Rightarrow> int \<Rightarrow> Message list \<Rightarrow> int \<Rightarrow> int \<Rightarrow> int \<times> int" where
  "stat_loop del i [] count sz = (count, sz)"
| "stat_loop del i (m # ms) count sz =
     (if i + 1 \<in> del then stat_loop del (i + 1) ms count sz
      else stat_loop del (i + 1) ms (count + 1) (wrap64 (sz + int (length (Data m)))))"

definition mem_Stat :: "mem \<Rightarrow> (int \<times> int) outcome \<times> mem" where
  "mem_Stat x = (Ret (stat_loop (deleted (snd x)) 0 (msgs (snd x)) 0 0), x)"

text \<open>The loop \<^verbatim>\<open>List\<close> and \<^verbatim>\<open>Uidl\<close> share: one item per message that is not marked.\<close>

fun items_loop :: "(int \<Rightarrow> Message \<Rightarrow> 'i) \<Rightarrow> int set \<Rightarrow> int \<Rightarrow> Message list \<Rightarrow> 'i list \<Rightarrow> 'i list" where
  "items_loop f del i [] items = items"
| "items_loop f del i (m # ms) items =
     (if i + 1 \<in> del then items_loop f del (i + 1) ms items
      else items_loop f del (i + 1) ms (items @ [f (i + 1) m]))"

definition info_of :: "int \<Rightarrow> Message \<Rightarrow> MessageInfo" where
  "info_of num m = \<lparr>Info_Num = num, Info_Size = int (length (Data m))\<rparr>"

definition uidl_of :: "int \<Rightarrow> Message \<Rightarrow> MessageUidl" where
  "uidl_of num m = \<lparr>Uidl_Num = num, Uidl_UniqueID = UID m\<rparr>"

definition mem_List :: "int \<Rightarrow> mem \<Rightarrow> MessageInfo list outcome \<times> mem" where
  "mem_List msg x =
     (if msg > 0 then
        (case msgAt msg (snd x) of Inl e \<Rightarrow> (Fail e, x) | Inr m \<Rightarrow> (Ret [info_of msg m], x))
      else (Ret (items_loop info_of (deleted (snd x)) 0 (msgs (snd x)) []), x))"

definition mem_Uidl :: "int \<Rightarrow> mem \<Rightarrow> MessageUidl list outcome \<times> mem" where
  "mem_Uidl msg x =
     (if msg > 0 then
        (case msgAt msg (snd x) of Inl e \<Rightarrow> (Fail e, x) | Inr m \<Rightarrow> (Ret [uidl_of msg m], x))
      else (Ret (items_loop uidl_of (deleted (snd x)) 0 (msgs (snd x)) []), x))"

text \<open>A \<^verbatim>\<open>bytes.Reader\<close> behind a \<^verbatim>\<open>NopCloser\<close>: the data, then the end of file.\<close>

definition bytes_body :: "bytes \<Rightarrow> body" where
  "bytes_body data = \<lparr>body_chunks = [data], body_ends = BodyEOF, body_octets = None\<rparr>"

definition mem_Retr :: "int \<Rightarrow> mem \<Rightarrow> body option outcome \<times> mem" where
  "mem_Retr msg x =
     (case msgAt msg (snd x) of
        Inl e \<Rightarrow> (Fail e, x)
      | Inr m \<Rightarrow> (Ret (Some (bytes_body (Data m))), x))"

fun bytes_Index :: "bytes \<Rightarrow> bytes \<Rightarrow> nat option" where
  "bytes_Index p [] = (if p = [] then Some 0 else None)"
| "bytes_Index p (b # s) =
     (if prefix p (b # s) then Some 0 else map_option Suc (bytes_Index p s))"

text \<open>The loop of \<^verbatim>\<open>topBytes\<close>: what it writes while fewer than \<open>n\<close> lines are out.\<close>

fun top_loop :: "nat \<Rightarrow> bytes \<Rightarrow> bytes" where
  "top_loop 0 body = []"
| "top_loop (Suc n) body =
     (if body = [] then []
      else if LF \<notin> set body then body
      else takeWhile (\<lambda>b. b \<noteq> LF) body @ [LF] @ top_loop n (tl (dropWhile (\<lambda>b. b \<noteq> LF) body)))"

definition topBytes :: "bytes \<Rightarrow> int \<Rightarrow> bytes" where
  "topBytes data n =
     (case (case bytes_Index (CRLF @ CRLF) data of
              Some i \<Rightarrow> Some (i + 4)
            | None \<Rightarrow> map_option (\<lambda>i. i + 2) (bytes_Index [LF, LF] data)) of
        None \<Rightarrow> data
      | Some k \<Rightarrow> take k data @ (if n \<le> 0 then [] else top_loop (nat n) (drop k data)))"

definition mem_Top :: "int \<Rightarrow> int \<Rightarrow> mem \<Rightarrow> body option outcome \<times> mem" where
  "mem_Top msg lines x =
     (case msgAt msg (snd x) of
        Inl e \<Rightarrow> (Fail e, x)
      | Inr m \<Rightarrow> (Ret (Some (bytes_body (topBytes (Data m) lines))), x))"

definition mem_Dele :: "int \<Rightarrow> mem \<Rightarrow> unit outcome \<times> mem" where
  "mem_Dele msg x =
     (let (st, s) = x
      in if msg < 1 \<or> msg > int (length (msgs s)) then (Fail (pop3_error [] ''no such message''), x)
         else if msg \<in> deleted s then (Fail (pop3_error [] ''message already deleted''), x)
         else (Ret (), (st, s\<lparr>deleted := insert msg (deleted s)\<rparr>)))"

definition mem_Rset :: "mem \<Rightarrow> unit outcome \<times> mem" where
  "mem_Rset x = (let (st, s) = x in (Ret (), (st, s\<lparr>deleted := {}\<rparr>)))"

definition mem_Noop :: "mem \<Rightarrow> unit outcome \<times> mem" where
  "mem_Noop x = (Ret (), x)"

definition mem_Close :: "mem \<Rightarrow> unit outcome \<times> mem" where
  "mem_Close x = (Ret (), x)"

definition removals :: "session \<Rightarrow> nat set" where
  "removals s =
     (\<lambda>num. Ptr (msgs s ! nat (num - 1))) ` {num \<in> deleted s. num \<ge> 1 \<and> num \<le> int (length (msgs s))}"

definition mem_Quit :: "mem \<Rightarrow> int outcome \<times> mem" where
  "mem_Quit x =
     (let (st, s) = x
      in if deleted s = {} then (Ret 0, x)
         else (let (n, st') = expunge (s_username s) (removals s) st in (Ret n, (st', s))))"

definition mem_session :: "mem Session" where
  "mem_session =
     \<lparr>s_Close = mem_Close, s_Login = mem_Login, s_Stat = mem_Stat, s_List = mem_List,
      s_Uidl = mem_Uidl, s_Retr = mem_Retr, s_Top = mem_Top, s_Dele = mem_Dele, s_Rset = mem_Rset,
      s_Noop = mem_Noop, s_Quit = mem_Quit,
      s_SASL = Some \<lparr>AuthenticateMechanisms = mem_AuthenticateMechanisms,
                      AuthenticatePlain = mem_AuthenticatePlain\<rparr>,
      s_Lang = None, s_UTF8 = None, s_Takes = (\<lambda>_ _ _. 0)\<rparr>"

section \<open>What a session shows\<close>

text \<open>The numbered messages that are not marked, in order: the reference for the loops.\<close>

definition live_from :: "int set \<Rightarrow> int \<Rightarrow> Message list \<Rightarrow> (int \<times> Message) list" where
  "live_from del i ms = filter (\<lambda>(num, m). num \<notin> del) (zip [i + 1..i + int (length ms)] ms)"

definition live :: "session \<Rightarrow> (int \<times> Message) list" where
  "live s = live_from (deleted s) 0 (msgs s)"

lemma live_from_Nil [simp]: "live_from del i [] = []"
  by (simp add: live_from_def)

lemma live_from_Cons:
  "live_from del i (m # ms) = (if i + 1 \<in> del then [] else [(i + 1, m)]) @ live_from del (i + 1) ms"
proof -
  have "[i + 1..i + int (length (m # ms))] = (i + 1) # [i + 1 + 1..i + 1 + int (length ms)]"
    using upto_rec1 [of "i + 1" "i + int (length (m # ms))"] by (simp add: ac_simps)
  then show ?thesis by (simp only: live_from_def) simp
qed

lemma items_loop_live:
  "items_loop f del i ms items = items @ map (\<lambda>(num, m). f num m) (live_from del i ms)"
  by (induction ms arbitrary: i items) (simp_all add: live_from_Cons)

lemma wrap64_add: "wrap64 (wrap64 a + b) = wrap64 (a + b)"
proof -
  have "wrap64 a + b + 2 ^ 63 = (a + 2 ^ 63) mod 2 ^ 64 + b" by (simp add: wrap64_def)
  then have "(wrap64 a + b + 2 ^ 63) mod 2 ^ 64 = (a + 2 ^ 63 + b) mod 2 ^ 64"
    by (simp only: mod_add_left_eq)
  then show ?thesis by (simp add: wrap64_def ac_simps)
qed

lemma stat_loop_live:
  "stat_loop del i ms count (wrap64 sz) =
     (count + int (length (live_from del i ms)),
      wrap64 (sz + (\<Sum>(num, m)\<leftarrow>live_from del i ms. int (length (Data m)))))"
  by (induction ms arbitrary: i count sz) (simp_all add: live_from_Cons wrap64_add ac_simps)

lemma mem_List_all: "mem_List 0 x = (Ret (map (\<lambda>(num, m). info_of num m) (live (snd x))), x)"
  by (simp add: mem_List_def live_def items_loop_live)

lemma mem_Uidl_all: "mem_Uidl 0 x = (Ret (map (\<lambda>(num, m). uidl_of num m) (live (snd x))), x)"
  by (simp add: mem_Uidl_def live_def items_loop_live)

text \<open>
  C28: STAT agrees with LIST: the count is the number of items of the scan listing and the size their
  sum, as a 64-bit integer.
\<close>

theorem stat_agrees_with_list:
  "\<exists>items. mem_List 0 x = (Ret items, x)
     \<and> mem_Stat x = (Ret (int (length items), wrap64 (\<Sum>i\<leftarrow>items. Info_Size i)), x)"
proof -
  have z: "(0 :: int) = wrap64 0" by (simp add: wrap64_def)
  have "stat_loop (deleted (snd x)) 0 (msgs (snd x)) 0 0 =
      (int (length (live (snd x))), wrap64 (\<Sum>(num, m)\<leftarrow>live (snd x). int (length (Data m))))"
    by (subst (3) z) (simp add: stat_loop_live live_def)
  moreover have "(\<Sum>(num, m)\<leftarrow>l. int (length (Data m))) = (\<Sum>i\<leftarrow>map (\<lambda>(num, m). info_of num m) l. Info_Size i)" for l
    by (induction l) (auto simp: info_of_def)
  ultimately show ?thesis by (simp add: mem_List_all mem_Stat_def)
qed

lemma in_live: "(num, m) \<in> set (live s) \<longleftrightarrow> msgAt num s = Inr m"
proof -
  have "(num, m) \<in> set (zip [1..int (length (msgs s))] (msgs s)) \<longleftrightarrow>
      1 \<le> num \<and> num \<le> int (length (msgs s)) \<and> m = msgs s ! nat (num - 1)" (is "?l \<longleftrightarrow> ?r")
  proof
    assume ?l
    then obtain i where i: "i < length (msgs s)" "num = 1 + int i" "m = msgs s ! i"
      by (auto simp: in_set_zip nth_upto)
    then show ?r by simp
  next
    assume r: ?r
    then have "nat (num - 1) < length (msgs s)" by linarith
    with r show ?l
      by (auto simp: in_set_zip nth_upto intro!: exI [of _ "nat (num - 1)"])
  qed
  then show ?thesis by (auto simp: live_def live_from_def msgAt_def)
qed


section \<open>Logging in and committing\<close>

text \<open>
  A login succeeds exactly for a known user with that user's password, and then the session holds
  the messages of the maildrop at that moment; otherwise nothing changes. In particular the stand-in
  password for unknown users lets nobody in.
\<close>

theorem mem_Login_iff:
  "mem_Login user pw (st, s) =
     (case users st user of
        Some acc \<Rightarrow>
          (if password acc = pw then LDone (Ret ()) (st, s\<lparr>s_username := user, msgs := messages acc\<rparr>)
           else LDone (Fail (pop3_error ''AUTH'' ''authentication failed'')) (st, s))
      | None \<Rightarrow> LDone (Fail (pop3_error ''AUTH'' ''authentication failed'')) (st, s))"
  by (auto simp: mem_Login_def authenticate_def Let_def split: option.splits)

lemma expunge_loop_filter:
  "expunge_loop remove ms kept n =
     (kept @ filter (\<lambda>m. Ptr m \<notin> remove) ms, n + int (length (filter (\<lambda>m. Ptr m \<in> remove) ms)))"
  by (induction ms arbitrary: kept n) auto

text \<open>The messages a session has marked, in order, and what is left without them.\<close>

definition marked_from :: "int set \<Rightarrow> int \<Rightarrow> Message list \<Rightarrow> Message list" where
  "marked_from del i ms = map snd (filter (\<lambda>(num, m). num \<in> del) (zip [i + 1..i + int (length ms)] ms))"

definition marked :: "session \<Rightarrow> Message list" where
  "marked s = marked_from (deleted s) 0 (msgs s)"

lemma marked_from_Nil [simp]: "marked_from del i [] = []"
  by (simp add: marked_from_def)

lemma marked_from_Cons:
  "marked_from del i (m # ms) = (if i + 1 \<in> del then [m] else []) @ marked_from del (i + 1) ms"
proof -
  have "[i + 1..i + int (length (m # ms))] = (i + 1) # [i + 1 + 1..i + 1 + int (length ms)]"
    using upto_rec1 [of "i + 1" "i + int (length (m # ms))"] by (simp add: ac_simps)
  then show ?thesis by (simp only: marked_from_def) simp
qed

lemma set_marked_from: "set (marked_from del i ms) =
    (\<lambda>num. ms ! nat (num - 1 - i)) ` {num \<in> del. i + 1 \<le> num \<and> num \<le> i + int (length ms)}"
proof (induction ms arbitrary: i)
  case (Cons m ms)
  have "{num \<in> del. i + 1 \<le> num \<and> num \<le> i + int (length (m # ms))} =
      (if i + 1 \<in> del then {i + 1} else {}) \<union> {num \<in> del. i + 1 + 1 \<le> num \<and> num \<le> i + 1 + int (length ms)}" (is "?A = _")
  proof -
    have "num = i + 1 \<or> i + 1 + 1 \<le> num" if "num \<in> ?A" for num using that by auto
    then show ?thesis by auto
  qed
  moreover have "(m # ms) ! nat (num - 1 - i) = ms ! nat (num - 1 - (i + 1))" if "i + 1 + 1 \<le> num" for num
  proof -
    have "nat (num - 1 - i) = Suc (nat (num - 1 - (i + 1)))" using that by simp
    then show ?thesis by simp
  qed
  ultimately show ?case
    by (simp add: marked_from_Cons Cons.IH image_Un cong: image_cong_simp)
qed simp

lemma removals_marked: "removals s = Ptr ` set (marked s)"
  by (simp add: removals_def marked_def set_marked_from image_image)

lemma kept_live_from:
  assumes "distinct (map Ptr ms)"
  shows "filter (\<lambda>m. Ptr m \<notin> Ptr ` set (marked_from del i ms)) ms = map snd (live_from del i ms)"
  using assms
proof (induction ms arbitrary: i)
  case (Cons m ms)
  have sub: "set (marked_from del (i + 1) ms) \<subseteq> set ms" by (auto simp: marked_from_def dest: set_zip_rightD)
  have new: "Ptr m \<notin> Ptr ` set (marked_from del (i + 1) ms)" using Cons.prems sub by auto
  have "filter (\<lambda>x. Ptr x \<noteq> Ptr m \<and> Ptr x \<notin> Ptr ` set (marked_from del (i + 1) ms)) ms =
      filter (\<lambda>x. Ptr x \<notin> Ptr ` set (marked_from del (i + 1) ms)) ms"
    using Cons.prems by (intro filter_cong) (auto simp: image_iff)
  with Cons new show ?case by (simp add: marked_from_Cons live_from_Cons)
qed simp

definition maildrop :: "bytes \<Rightarrow> Store \<Rightarrow> Message list" where
  "maildrop user st = (case users st user of None \<Rightarrow> [] | Some acc \<Rightarrow> messages acc)"

lemma removals_none: "deleted s = {} \<Longrightarrow> removals s = {}"
  by (simp add: removals_def)

lemma mem_Quit_store:
  "snd (snd (mem_Quit (st, s))) = s"
  "maildrop user (fst (snd (mem_Quit (st, s)))) =
     (if user = s_username s then filter (\<lambda>m. Ptr m \<notin> removals s) (maildrop user st)
      else maildrop user st)"
  by (auto simp: mem_Quit_def removals_none expunge_def expunge_loop_filter maildrop_def Let_def
      split: option.splits)

lemma mem_Quit_count:
  "fst (mem_Quit (st, s)) =
     Ret (int (length (filter (\<lambda>m. Ptr m \<in> removals s) (maildrop (s_username s) st))))"
  by (auto simp: mem_Quit_def removals_none expunge_def expunge_loop_filter maildrop_def Let_def
      split: option.splits)

text \<open>
  C6: QUIT removes from the user's maildrop exactly the messages marked in this session, keeps the
  others in order, reports how many it removed, and touches no other user's maildrop. If the maildrop is
  still the one of the login, what remains is what the scan listing showed last.
\<close>

theorem mem_Quit_expunges:
  assumes "mem_Quit (st, s) = (r, st', s')"
  shows "s' = s
    \<and> r = Ret (int (length (maildrop (s_username s) st)) - int (length (maildrop (s_username s) st')))
    \<and> maildrop (s_username s) st' = filter (\<lambda>m. Ptr m \<notin> Ptr ` set (marked s)) (maildrop (s_username s) st)
    \<and> (\<forall>user. user \<noteq> s_username s \<longrightarrow> maildrop user st' = maildrop user st)
    \<and> (maildrop (s_username s) st = msgs s \<and> distinct (map Ptr (msgs s)) \<longrightarrow>
         maildrop (s_username s) st' = map snd (live s))"
proof -
  have q: "s' = s" "maildrop (s_username s) st' = filter (\<lambda>m. Ptr m \<notin> removals s) (maildrop (s_username s) st)"
    "\<And>user. user \<noteq> s_username s \<Longrightarrow> maildrop user st' = maildrop user st"
    "r = Ret (int (length (filter (\<lambda>m. Ptr m \<in> removals s) (maildrop (s_username s) st))))"
    using mem_Quit_store(1) [of st s] mem_Quit_store(2) [of _ st s] mem_Quit_count [of st s] assms by auto
  have "int (length (filter (\<lambda>m. Ptr m \<in> removals s) ms)) =
      int (length ms) - int (length (filter (\<lambda>m. Ptr m \<notin> removals s) ms))" for ms
    using sum_length_filter_compl [of "\<lambda>m. Ptr m \<in> removals s" ms] by linarith
  with q show ?thesis
    using kept_live_from [of "msgs s" "deleted s" 0] by (simp add: removals_marked marked_def live_def)
qed

section \<open>Commit on QUIT only\<close>

text \<open>
  The contract a maildrop has with its clients (RFC 1939): of all the methods only Quit changes what
  is stored. \<open>obs\<close> is the stored part of the session's state. What follows for a whole connection
  is shown once, in the locale, over the calls of the connection's trace.
\<close>

locale commit_on_quit =
  fixes M :: "'s Session" and obs :: "'s \<Rightarrow> 'o"
  assumes close_obs: "obs (snd (s_Close M s)) = obs s"
    and login_obs: "login_result (s_Login M u p s) r s' \<Longrightarrow> obs s' = obs s"
    and plain_obs: "s_SASL M = Some x \<Longrightarrow> login_result (AuthenticatePlain x i u p s) r s' \<Longrightarrow> obs s' = obs s"
    and stat_obs: "obs (snd (s_Stat M s)) = obs s"
    and list_obs: "obs (snd (s_List M msg s)) = obs s"
    and uidl_obs: "obs (snd (s_Uidl M msg s)) = obs s"
    and retr_obs: "obs (snd (s_Retr M msg s)) = obs s"
    and top_obs: "obs (snd (s_Top M msg l s)) = obs s"
    and dele_obs: "obs (snd (s_Dele M msg s)) = obs s"
    and rset_obs: "obs (snd (s_Rset M s)) = obs s"
    and noop_obs: "obs (snd (s_Noop M s)) = obs s"
    and lang_obs: "s_Lang M = Some y \<Longrightarrow> obs (snd (ListLanguages y s)) = obs s"
    and setlang_obs: "s_Lang M = Some y \<Longrightarrow> obs (snd (SetLanguage y t s)) = obs s"
    and utf8_obs: "s_UTF8 M = Some z \<Longrightarrow> obs (snd (EnableUTF8 z s)) = obs s"
begin

lemmas method_obs = close_obs login_obs plain_obs stat_obs list_obs uidl_obs retr_obs top_obs dele_obs
  rset_obs noop_obs lang_obs setlang_obs utf8_obs

lemma effect_obs:
  assumes "effect srv k r s s'" "meths srv = M" "UnknownCommandHandler (opts srv) = None" "k \<noteq> CQuit"
  shows "obs s' = obs s"
  using assms by (cases k) (auto simp: result_of_def method_obs)

lemma run_obs:
  assumes "meths srv = M" "UnknownCommandHandler (opts srv) = None"
  shows "session_run srv es s s' \<Longrightarrow> filter is_quit es = [] \<Longrightarrow> obs s' = obs s"
proof (induction es arbitrary: s)
  case (Cons e es)
  show ?case
  proof (cases e)
    case (EvCall k r)
    then obtain t where t: "effect srv k r s t" "session_run srv es t s'" "k \<noteq> CQuit" "filter is_quit es = []"
      using Cons.prems by (auto split: if_splits)
    then show ?thesis using Cons.IH effect_obs [OF t(1) assms t(3)] by simp
  qed (use Cons assms(1) close_obs in \<open>auto split: if_splits\<close>)
qed simp

end

interpretation mem: commit_on_quit mem_session fst
proof
  fix x u p r y and s s' :: mem
  show "login_result (s_Login mem_session u p s) r s' \<Longrightarrow> fst s' = fst s"
    by (auto simp: mem_session_def mem_Login_def login_result_def Let_def split: option.splits prod.splits)
next
  fix x i u p r and s s' :: mem
  show "s_SASL mem_session = Some x \<Longrightarrow> login_result (AuthenticatePlain x i u p s) r s' \<Longrightarrow> fst s' = fst s"
    by (auto simp: mem_session_def mem_AuthenticatePlain_def mem_Login_def login_result_def Let_def
        split: option.splits prod.splits)
qed (auto simp: mem_session_def mem_Close_def mem_Stat_def mem_List_def mem_Uidl_def mem_Retr_def mem_Top_def
    mem_Dele_def mem_Rset_def mem_Noop_def Let_def split: sum.splits prod.splits)

text \<open>
  C7: nothing is deleted without QUIT. A connection to the in-memory maildrop in which the QUIT method
  was not called, because the client dropped, timed out, exceeded the error limit or quit before
  logging in, leaves the store as it was, whatever was marked for deletion.
\<close>

theorem no_quit_no_deletion:
  assumes "meths srv = mem_session" and "UnknownCommandHandler (opts srv) = None"
    and "filter is_quit (trace (serve srv (newConn srv (st, s) tls n))) = []"
  shows "fst (session (serve srv (newConn srv (st, s) tls n))) = st"
  using mem.run_obs [OF assms(1,2) serve_refines_run assms(3)] by simp

section \<open>Sessions side by side\<close>

text \<open>
  The store with all the sessions on it. A step adds a user or a message, opens a session, or is one
  method call of one session; \<open>srv\<close> is any server on the in-memory maildrop.
\<close>

type_synonym world = "Store \<times> session list"

inductive mem_step :: "mem Server \<Rightarrow> world \<Rightarrow> world \<Rightarrow> bool" for srv where
  add_user: "mem_step srv (st, ss) (AddUser user pw st, ss)"
| add_message: "AddMessage fmt_q user uid data st = (e, st') \<Longrightarrow> mem_step srv (st, ss) (st', ss)"
| open_session: "mem_step srv (st, ss) (st, ss @ [new_session])"
| call: "i < length ss \<Longrightarrow> effect srv k r (st, ss ! i) (st', s') \<Longrightarrow> mem_step srv (st, ss) (st', ss[i := s'])"

inductive mem_reach :: "mem Server \<Rightarrow> world \<Rightarrow> bool" for srv where
  init: "mem_reach srv (New_Store, [])"
| step: "mem_reach srv w \<Longrightarrow> mem_step srv w w' \<Longrightarrow> mem_reach srv w'"

text \<open>
  Addresses: every message in a maildrop or in a session's snapshot has been handed out, no maildrop
  holds one twice, and no two maildrops share one.
\<close>

definition wf_store :: "Store \<Rightarrow> bool" where
  "wf_store st \<longleftrightarrow>
     (\<forall>user. (\<forall>m \<in> set (maildrop user st). Ptr m < next_ptr st)
        \<and> distinct (map Ptr (maildrop user st))
        \<and> (\<forall>user'. user' \<noteq> user \<longrightarrow>
             set (map Ptr (maildrop user st)) \<inter> set (map Ptr (maildrop user' st)) = {}))"

definition wf_session :: "Store \<Rightarrow> session \<Rightarrow> bool" where
  "wf_session st s \<longleftrightarrow> (\<forall>m \<in> set (msgs s). Ptr m < next_ptr st)"

definition wf_world :: "world \<Rightarrow> bool" where
  "wf_world w \<longleftrightarrow> wf_store (fst w) \<and> (\<forall>s \<in> set (snd w). wf_session (fst w) s)"

lemma wf_store_AddUser: "wf_store st \<Longrightarrow> wf_store (AddUser user pw st)"
  by (auto simp: wf_store_def AddUser_def maildrop_def)

lemma AddMessage_maildrop:
  assumes "AddMessage fmt_q user uid data st = (e, st')"
  shows "(e \<noteq> None \<and> st' = st)
    \<or> (e = None \<and> next_ptr st' = next_ptr st + 1
       \<and> maildrop user st' = maildrop user st @ [\<lparr>Ptr = next_ptr st, UID = uid, Data = data\<rparr>]
       \<and> (\<forall>u. u \<noteq> user \<longrightarrow> maildrop u st' = maildrop u st))"
  using assms by (auto simp: AddMessage_def maildrop_def Let_def split: option.splits)

lemma wf_store_AddMessage:
  assumes "wf_store st" and "AddMessage fmt_q user uid data st = (e, st')"
  shows "wf_store st' \<and> next_ptr st \<le> next_ptr st'"
  using AddMessage_maildrop [OF assms(2)]
proof
  assume a: "e = None \<and> next_ptr st' = next_ptr st + 1
       \<and> maildrop user st' = maildrop user st @ [\<lparr>Ptr = next_ptr st, UID = uid, Data = data\<rparr>]
       \<and> (\<forall>u. u \<noteq> user \<longrightarrow> maildrop u st' = maildrop u st)"
  have lt: "Ptr m < next_ptr st" if "m \<in> set (maildrop u st)" for u m
    using assms(1) that by (auto simp: wf_store_def)
  have drop: "maildrop u st' = maildrop u st @ (if u = user then [\<lparr>Ptr = next_ptr st, UID = uid, Data = data\<rparr>] else [])" for u
    using a by simp
  have "Ptr m < next_ptr st'" if "m \<in> set (maildrop u st')" for u m
    using lt that a by (fastforce simp: drop split: if_splits)
  moreover have "distinct (map Ptr (maildrop u st'))" for u
    using assms(1) lt by (fastforce simp: drop wf_store_def)
  moreover have "set (map Ptr (maildrop u st')) \<inter> set (map Ptr (maildrop u' st')) = {}" if "u' \<noteq> u" for u u'
  proof -
    have "set (map Ptr (maildrop u st)) \<inter> set (map Ptr (maildrop u' st)) = {}"
      using assms(1) that by (auto simp: wf_store_def)
    then show ?thesis using lt that by (fastforce simp: drop)
  qed
  ultimately show ?thesis using a by (auto simp: wf_store_def)
qed (use assms(1) in simp)

lemma wf_store_sub:
  assumes "wf_store st" "\<And>u. \<exists>P. maildrop u st' = filter P (maildrop u st)" "next_ptr st' = next_ptr st"
  shows "wf_store st'"
proof -
  have wf: "\<And>u m. m \<in> set (maildrop u st) \<Longrightarrow> Ptr m < next_ptr st" "\<And>u. distinct (map Ptr (maildrop u st))"
    "\<And>u u'. u' \<noteq> u \<Longrightarrow> set (map Ptr (maildrop u st)) \<inter> set (map Ptr (maildrop u' st)) = {}"
    using assms(1) by (simp_all add: wf_store_def)
  have sub: "set (maildrop u st') \<subseteq> set (maildrop u st)" "distinct (map Ptr (maildrop u st'))" for u
  proof -
    obtain P where "maildrop u st' = filter P (maildrop u st)" using assms(2) by blast
    then show "set (maildrop u st') \<subseteq> set (maildrop u st)" "distinct (map Ptr (maildrop u st'))"
      using wf(2) [of u] by (auto simp: distinct_map_filter)
  qed
  have "set (map Ptr (maildrop u st')) \<inter> set (map Ptr (maildrop u' st')) = {}" if "u' \<noteq> u" for u u'
    using wf(3) [OF that] sub(1) [of u] sub(1) [of u'] by auto
  moreover have "Ptr m < next_ptr st'" if "m \<in> set (maildrop u st')" for u m
    using wf(1) sub(1) [of u] that assms(3) by auto
  ultimately show ?thesis using sub(2) unfolding wf_store_def by blast
qed

lemma effect_mem:
  assumes "effect srv k r (st, s) (st', s')" "meths srv = mem_session" "UnknownCommandHandler (opts srv) = None"
  shows "next_ptr st' = next_ptr st"
    and "\<exists>P. maildrop u st' = filter P (maildrop u st)"
    and "msgs s' = msgs s \<or> (\<exists>user. msgs s' = maildrop user st)"
proof -
  have store: "k \<noteq> CQuit \<Longrightarrow> st' = st"
    using mem.effect_obs [OF assms(1,2,3)] by simp
  have quit: "st' = fst (snd (mem_Quit (st, s)))" "s' = s" if "k = CQuit"
    using assms(1,2) that mem_Quit_store(1) [of st s] by (auto simp: result_of_def mem_session_def dest: arg_cong [of _ _ snd] arg_cong [of _ _ fst])
  show "next_ptr st' = next_ptr st"
    using store quit
    by (cases "k = CQuit") (auto simp: mem_Quit_def expunge_def Let_def split: option.splits prod.splits)
  show "\<exists>P. maildrop u st' = filter P (maildrop u st)"
  proof (cases "k = CQuit")
    case True
    then show ?thesis unfolding quit(1) [OF True] mem_Quit_store(2) by (auto intro: exI [of _ "\<lambda>_. True"])
  next
    case False
    then show ?thesis using store by (auto intro: exI [of _ "\<lambda>_. True"])
  qed
  show "msgs s' = msgs s \<or> (\<exists>user. msgs s' = maildrop user st)"
  proof (cases k)
    case (CLogin user pw)
    then show ?thesis using assms(1,2)
      by (auto simp: mem_session_def mem_Login_def authenticate_def login_result_def maildrop_def Let_def
          split: option.splits if_splits intro!: exI [of _ user])
  next
    case (CAuthenticatePlain i user pw)
    then show ?thesis using assms(1,2)
      by (auto simp: mem_session_def mem_AuthenticatePlain_def mem_Login_def authenticate_def login_result_def
          maildrop_def Let_def split: option.splits if_splits intro!: exI [of _ user])
  next
    case CQuit
    then show ?thesis using quit(2) by simp
  qed (use assms in \<open>auto simp: result_of_def mem_session_def mem_Stat_def mem_List_def mem_Uidl_def mem_Retr_def
      mem_Top_def mem_Dele_def mem_Rset_def mem_Noop_def Let_def split: sum.splits if_splits\<close>)
qed

lemma wf_session_mono: "wf_session st s \<Longrightarrow> next_ptr st \<le> next_ptr st' \<Longrightarrow> wf_session st' s"
  by (fastforce simp: wf_session_def)

lemma wf_world_step:
  assumes "mem_step srv w w'" "wf_world w" "meths srv = mem_session" "UnknownCommandHandler (opts srv) = None"
  shows "wf_world w'"
  using assms(1,2)
proof cases
  case (add_user st ss user pw)
  then show ?thesis using assms(2)
    by (auto simp: wf_world_def wf_store_AddUser) (auto simp: wf_session_def AddUser_def)
next
  case (add_message fmt_q user uid data st e st' ss)
  then show ?thesis
    using assms(2) wf_store_AddMessage [OF _ add_message(3)] by (auto simp: wf_world_def intro: wf_session_mono)
next
  case (open_session st ss)
  then show ?thesis using assms(2) by (auto simp: wf_world_def wf_session_def new_session_def)
next
  case (call i ss k r st st' s')
  have wf: "wf_store st" "\<And>s. s \<in> set ss \<Longrightarrow> wf_session st s" using assms(2) call(1) by (auto simp: wf_world_def)
  note ef = effect_mem [OF call(4) assms(3,4)]
  have "wf_store st'" using wf(1) ef(2) ef(1) by (rule wf_store_sub)
  moreover have "wf_session st' s'"
    using ef(1,3) wf(1) wf(2) [OF nth_mem [OF call(3)]] by (auto simp: wf_session_def wf_store_def)
  moreover have "wf_session st' s" if "s \<in> set ss" for s
    using wf(2) [OF that] ef(1) by (simp add: wf_session_def)
  ultimately show ?thesis
    using call(2) by (auto simp: wf_world_def dest!: subsetD [OF set_update_subset_insert])
qed

lemma mem_reach_wf:
  assumes "meths srv = mem_session" "UnknownCommandHandler (opts srv) = None"
  shows "mem_reach srv w \<Longrightarrow> wf_world w"
proof (induction rule: mem_reach.induct)
  case init
  then show ?case by (simp add: wf_world_def wf_store_def New_Store_def maildrop_def)
next
  case (step w w')
  then show ?case using wf_world_step assms by blast
qed


text \<open>
  C16: mail that arrives during a session survives it. In every reachable state, a message added to
  any maildrop after the session took its snapshot is still there after that session quits, whatever
  it has marked.
\<close>

theorem new_mail_survives_quit:
  assumes "meths srv = mem_session" and "UnknownCommandHandler (opts srv) = None"
    and "mem_reach srv (st, ss)" and "s \<in> set ss"
    and "AddMessage fmt_q user uid data st = (None, st1)"
    and "mem_Quit (st1, s) = (r, st2, s2)"
  shows "\<lparr>Ptr = next_ptr st, UID = uid, Data = data\<rparr> \<in> set (maildrop user st2)"
proof -
  have "wf_session st s" using mem_reach_wf [OF assms(1-3)] assms(4) by (simp add: wf_world_def)
  then have "next_ptr st \<notin> removals s"
    unfolding removals_def wf_session_def by (auto simp: image_iff)
  moreover have "\<lparr>Ptr = next_ptr st, UID = uid, Data = data\<rparr> \<in> set (maildrop user st1)"
    using AddMessage_maildrop [OF assms(5)] by auto
  ultimately show ?thesis
    using mem_Quit_store(2) [of user st1 s] assms(6) by auto
qed

section \<open>TOP\<close>

lemma bytes_Index_Some:
  "bytes_Index p s = Some i \<Longrightarrow> \<exists>a b. s = a @ p @ b \<and> length a = i"
proof (induction s arbitrary: i)
  case Nil
  then show ?case by (auto split: if_splits)
next
  case (Cons x s)
  show ?case
  proof (cases "prefix p (x # s)")
    case True
    with Cons.prems show ?thesis by (auto simp: prefix_def)
  next
    case False
    with Cons.prems obtain j where "bytes_Index p s = Some j" "i = Suc j" by auto
    with Cons.IH obtain a b where "s = a @ p @ b" "length a = j" by blast
    with \<open>i = Suc j\<close> have "x # s = (x # a) @ p @ b \<and> length (x # a) = i" by simp
    then show ?thesis by blast
  qed
qed

lemma bytes_Index_None: "bytes_Index p s = None \<Longrightarrow> s \<noteq> a @ p @ b"
proof (induction s arbitrary: a)
  case Nil
  then show ?case by (auto split: if_splits)
next
  case (Cons x s)
  then have "\<not> prefix p (x # s)" "bytes_Index p s = None" by (auto split: if_splits)
  with Cons.IH show ?case by (cases a) (auto simp: prefix_def)
qed

lemma bytes_Index_first: "bytes_Index p s = Some i \<Longrightarrow> s = a @ p @ b \<Longrightarrow> i \<le> length a"
proof (induction s arbitrary: i a)
  case Nil
  then show ?case by (auto split: if_splits)
next
  case (Cons x s)
  show ?case
  proof (cases a)
    case Nil
    then have "prefix p (x # s)" using Cons.prems(2) by (auto simp: prefix_def)
    then show ?thesis using Cons.prems(1) by simp
  next
    case (Cons y a')
    then show ?thesis using Cons.prems Cons.IH [of _ a'] by (auto split: if_splits)
  qed
qed

lemma lines_of_first:
  "LF \<in> set s \<Longrightarrow>
     lines_of s = (takeWhile (\<lambda>b. b \<noteq> LF) s @ [LF]) # lines_of (tl (dropWhile (\<lambda>b. b \<noteq> LF) s))"
  by (induction s) auto

lemma lines_of_unended: "LF \<notin> set s \<Longrightarrow> s \<noteq> [] \<Longrightarrow> lines_of s = [s]"
proof (induction s)
  case (Cons b s)
  then show ?case by (cases s) auto
qed simp

lemma top_loop_lines: "top_loop n s = concat (take n (lines_of s))"
proof (induction n s rule: top_loop.induct)
  case (2 n s)
  then show ?case by (cases "LF \<in> set s") (auto simp: lines_of_first lines_of_unended)
qed simp


end
