(* ===== verification/RoundTrip.thy ===== *)
theory RoundTrip
  imports Lines MemStore
begin

text \<open>
  The client reads what the server writes: a message body, a STAT line, a LIST and a UIDL listing,
  and a SASL PLAIN response survive the way from one to the other. The bytes may arrive in any
  segments before the deadline of the call and before its context is cancelled (\<open>awaits\<close>).
\<close>

section \<open>Guards that have not fired\<close>

lemma soonest_simps [simp]: "soonest [] = None" "soonest (t # ts) = earlier (Some t) (soonest ts)"
  by (simp_all add: soonest_def)

lemma soonest_mem: "t \<in> set ts \<Longrightarrow> \<exists>s. soonest ts = Some s \<and> s \<le> t"
  by (induction ts) (auto simp: earlier_Some split: option.split)

definition unfired :: "Client \<Rightarrow> bool" where
  "unfired c \<longleftrightarrow> (\<forall>g \<in> set (guards c). now (c_conn c) \<le> g)"

lemma settle_unfired: "unfired c \<Longrightarrow> settle False c = c"
  by (auto simp: unfired_def settle_def due_def filter_empty_conv Let_def)

text \<open>The client with the guard of a call.\<close>

definition watched :: "Ctx \<Rightarrow> Client \<Rightarrow> Client" where
  "watched ctx c = c\<lparr>guards := (case ctx_Done ctx of None \<Rightarrow> [] | Some t \<Rightarrow> [t]) @ guards c\<rparr>"

lemma watched_frame [simp]:
  "c_conn (watched ctx c) = c_conn c" "c_reader (watched ctx c) = c_reader c"
  "c_writer (watched ctx c) = c_writer c" "maxLine (watched ctx c) = maxLine c"
  "maxRespLines (watched ctx c) = maxRespLines c"
  by (simp_all add: watched_def)

lemma arm_watched: "unfired (watched ctx c) \<Longrightarrow> arm ctx c = watched ctx c"
  using settle_unfired [of "watched ctx c"]
  by (cases "ctx_Done ctx") (simp_all add: arm_def watched_def)

section \<open>What the client is waiting for\<close>

text \<open>
  \<open>expects\<close>: no guard of the client has fired, and the bytes \<open>p\<close> are there or come before the deadline
  of the context and before a guard fires. \<open>awaits\<close> is the same for a call that has still to arm its
  own guard.
\<close>

definition expects :: "Ctx \<Rightarrow> Client \<Rightarrow> (nat \<times> net_event) list \<Rightarrow> bytes \<Rightarrow> bool" where
  "expects ctx c evs p \<longleftrightarrow> unfired c \<and> pending (c_reader c) (limited (set_read_deadline ctx c)) evs p"

definition awaits :: "Ctx \<Rightarrow> Client \<Rightarrow> (nat \<times> net_event) list \<Rightarrow> bytes \<Rightarrow> bool" where
  "awaits ctx c evs p = expects ctx (watched ctx c) evs p"

text \<open>The next command goes out.\<close>

definition can_write :: "Ctx \<Rightarrow> Client \<Rightarrow> bool" where
  "can_write ctx c = healthy (c_writer c, limited (set_write_deadline ctx c))"

definition ready :: "Ctx \<Rightarrow> Client \<Rightarrow> bool" where
  "ready ctx c = can_write ctx (watched ctx c)"

definition same_client :: "Client \<Rightarrow> Client \<Rightarrow> bool" where
  "same_client c c' \<longleftrightarrow> maxLine c' = maxLine c \<and> maxRespLines c' = maxRespLines c \<and> guards c' = guards c"

lemma same_client_refl [simp]: "same_client c c"
  by (simp add: same_client_def)

lemma same_client_trans: "same_client a b \<Longrightarrow> same_client b c \<Longrightarrow> same_client a c"
  by (auto simp: same_client_def)

lemma pending_cong:
  "net n' = net n \<Longrightarrow> now n' = now n \<Longrightarrow> rdeadline n' = rdeadline n \<Longrightarrow> pending buf n' evs p = pending buf n evs p"
  by (simp add: pending_def prompt_def cong: option.case_cong)

text \<open>Only the deadline and the guards matter.\<close>

lemma limited_read:
  "rdeadline (limited (set_read_deadline ctx c)) =
     earlier (case ctx_Deadline ctx of None \<Rightarrow> rdeadline (c_conn c) | Some d \<Rightarrow> Some d) (soonest (guards c))"
  by (simp add: limited_def set_read_deadline_def split: option.split)

lemma limited_write:
  "wdeadline (limited (set_write_deadline ctx c)) =
     earlier (case ctx_Deadline ctx of None \<Rightarrow> wdeadline (c_conn c) | Some d \<Rightarrow> Some d) (soonest (guards c))"
  by (simp add: limited_def set_write_deadline_def split: option.split)

section \<open>Lines\<close>

lemma client_readLine_expects:
  assumes "expects ctx c evs (l @ LF # rest)" and "LF \<notin> set l" and "int (length (strip_cr l)) \<le> maxLine c"
  shows "\<exists>c'. client_readLine ctx c = (Done (strip_cr l), c') \<and> expects ctx c' evs rest \<and> same_client c c'"
proof -
  define d where "d = set_read_deadline ctx c"
  have u: "unfired c" and p: "pending (c_reader c) (limited d) evs (l @ LF # rest)"
    using assms(1) by (simp_all add: expects_def d_def)
  obtain buf n where rl: "client_readLine_loop (maxLine c) [] (c_reader c) (limited d) = (Done (strip_cr l), buf, n)"
    and n: "pending buf n evs rest" "same_peer (limited d) n"
    using client_readLine_loop_pending [OF p, of "[]" "maxLine c"] assms(2,3) by auto
  let ?d = "d\<lparr>c_reader := buf, c_conn := n\<lparr>rdeadline := rdeadline (c_conn d), wdeadline := wdeadline (c_conn d)\<rparr>\<rparr>"
  have "now n \<le> g" if g: "g \<in> set (guards c)" for g
  proof -
    obtain s where s: "soonest (guards c) = Some s" "s \<le> g" using soonest_mem [OF g] by blast
    then obtain e where "rdeadline (limited d) = Some e" "e \<le> s"
      by (cases "rdeadline (c_conn d)") (auto simp: limited_def d_def)
    with client_readLine_loop_deadline [OF rl this(1)] s(2) u g show ?thesis
      by (force simp: unfired_def d_def)
  qed
  then have ud: "unfired ?d" by (simp add: unfired_def d_def)
  have "client_readLine ctx c = (Done (strip_cr l), ?d)"
    using rl settle_unfired [OF u] settle_unfired [OF ud]
    unfolding client_readLine_def resume_def by (simp add: d_def Let_def)
  moreover have "rdeadline (limited (set_read_deadline ctx ?d)) = rdeadline n"
    using n(2) by (simp add: limited_read same_peer_def limited_def d_def set_read_deadline_def split: option.splits)
  then have "pending buf (limited (set_read_deadline ctx ?d)) evs rest"
    using n(1) pending_cong [of "limited (set_read_deadline ctx ?d)" n buf evs rest] by simp
  then have "expects ctx ?d evs rest" using ud by (simp add: expects_def)
  moreover have "same_client c ?d" by (simp add: same_client_def d_def)
  ultimately show ?thesis by blast
qed

lemma strip_cr_line [simp]: "strip_cr (l @ [CR]) = l"
  by (simp add: strip_cr_def)

text \<open>A line as the server ends it.\<close>

lemma client_readLine_crlf:
  assumes "expects ctx c evs (l @ CRLF @ rest)" "LF \<notin> set l" "int (length l) \<le> maxLine c"
  shows "\<exists>c'. client_readLine ctx c = (Done l, c') \<and> expects ctx c' evs rest \<and> same_client c c'"
  using client_readLine_expects [of ctx c evs "l @ [CR]" rest] assms by simp

lemma writeCmd_expects:
  assumes "can_write ctx c" and ex: "expects ctx c evs p"
  shows "\<exists>c'. writeCmd ctx line c = (Done (), c') \<and> expects ctx c' evs p \<and> same_client c c'"
proof -
  define d where "d = set_write_deadline ctx c"
  have u: "unfired c" using ex by (simp add: expects_def)
  have "healthy (c_writer c, limited d)" using assms(1) by (simp add: can_write_def d_def)
  then obtain w n where w: "bufw_Write (c_writer c, limited d) (line @ CRLF) = (None, w, n)" "healthy (w, n)"
    "now n = now (c_conn c)"
    using healthy_bufw_Write [of "(c_writer c, limited d)" "line @ CRLF"] by (auto simp: d_def)
  obtain v m where v: "Flush (w, n) = (None, v, m)" "now m = now (c_conn c)"
    using healthy_Flush [OF w(2)] w(3) by auto
  let ?d = "d\<lparr>c_writer := v, c_conn := m\<lparr>rdeadline := rdeadline (c_conn d), wdeadline := wdeadline (c_conn d)\<rparr>\<rparr>"
  have nm: "net m = net (c_conn c)"
    using writes_to_keeps(2) [OF bufw_Write_writes_to [OF w(1)]] writes_to_keeps(2) [OF Flush_writes_to [OF v(1)]]
    by (simp add: d_def)
  have ud: "unfired ?d" using u v(2) by (simp add: unfired_def d_def)
  have "writeCmd ctx line c = (Done (), ?d)"
    using w v settle_unfired [OF u] settle_unfired [OF ud]
    unfolding writeCmd_def resume_def by (simp add: d_def Let_def)
  moreover have "pending (c_reader c) (limited (set_read_deadline ctx ?d)) evs p =
      pending (c_reader c) (limited (set_read_deadline ctx c)) evs p"
    by (rule pending_cong) (simp_all add: limited_read v nm d_def cong: option.case_cong)
  then have "expects ctx ?d evs p" using ex ud by (simp add: expects_def) (simp add: d_def)
  moreover have "same_client c ?d" by (simp add: same_client_def d_def)
  ultimately show ?thesis by blast
qed

lemma exchange_expects:
  assumes "can_write ctx c" "expects ctx c evs (l @ CRLF @ rest)" "LF \<notin> set l" "int (length l) \<le> maxLine c"
  shows "\<exists>c'. exchange ctx line c = (Done l, c') \<and> expects ctx c' evs rest \<and> same_client c c'"
proof -
  obtain c1 where c1: "writeCmd ctx line c = (Done (), c1)" "expects ctx c1 evs (l @ CRLF @ rest)" "same_client c c1"
    using writeCmd_expects [OF assms(1,2)] by blast
  have "int (length l) \<le> maxLine c1" using assms(4) c1(3) by (simp add: same_client_def)
  from client_readLine_crlf [OF c1(2) assms(3) this] obtain c2
    where "client_readLine ctx c1 = (Done l, c2)" "expects ctx c2 evs rest" "same_client c1 c2" by blast
  with c1 show ?thesis by (auto simp: exchange_def and_then_def intro: same_client_trans)
qed

text \<open>A guarded operation: what it does under its guard.\<close>

lemma stop_awaits:
  assumes "expects ctx c' evs p" "same_client (watched ctx c) c'"
  shows "awaits ctx (stop ctx c') evs p" "same_client c (stop ctx c')"
proof -
  have "guards (watched ctx (stop ctx c')) = guards c'"
    using assms(2) by (simp add: same_client_def stop_def watched_def split: option.split)
  then have "limited (set_read_deadline ctx (watched ctx (stop ctx c'))) = limited (set_read_deadline ctx c')"
    "unfired (watched ctx (stop ctx c')) = unfired c'"
    by (simp_all add: limited_def set_read_deadline_def unfired_def split: option.split)
  then show "awaits ctx (stop ctx c') evs p" using assms(1) by (simp add: awaits_def expects_def)
  show "same_client c (stop ctx c')"
    using assms(2) by (simp add: same_client_def stop_def watched_def split: option.splits)
qed

lemma guard_awaits:
  assumes "awaits ctx c evs q"
    and op: "\<exists>c'. op (watched ctx c) = (Done a, c') \<and> expects ctx c' evs p \<and> same_client (watched ctx c) c'"
  shows "\<exists>c'. guard ctx op c = (Done a, c') \<and> awaits ctx c' evs p \<and> same_client c c'"
proof -
  have "arm ctx c = watched ctx c" using assms(1) by (intro arm_watched) (simp add: awaits_def expects_def)
  with op stop_awaits show ?thesis by (fastforce simp: guard_def)
qed

lemma Cmd_awaits:
  assumes "ready ctx c" "awaits ctx c evs (l @ CRLF @ rest)" "LF \<notin> set l" "int (length l) \<le> maxLine c"
  shows "\<exists>c'. Cmd ctx line c = (Done l, c') \<and> awaits ctx c' evs rest \<and> same_client c c'"
  unfolding Cmd_def
  by (rule guard_awaits [OF assms(2)], rule exchange_expects)
    (use assms in \<open>simp_all add: ready_def awaits_def\<close>)

text \<open>What a command puts on the wire.\<close>

lemma sent_frame [simp]:
  "sent (c_conn (settle f c)) = sent (c_conn c)" "sent (limited c) = sent (c_conn c)"
  "sent (c_conn (set_read_deadline ctx c)) = sent (c_conn c)" "sent (c_conn (set_write_deadline ctx c)) = sent (c_conn c)"
  "sent (c_conn (resume f c n)) = sent n"
  by (simp_all add: settle_def client_SetDeadline_def limited_def set_read_deadline_def set_write_deadline_def
      resume_def Let_def split: option.split)

lemma client_readLine_sent: "sent (c_conn (snd (client_readLine ctx c))) = sent (c_conn c)"
proof -
  let ?d = "set_read_deadline ctx (settle False c)"
  obtain r b n where lp: "client_readLine_loop (maxLine ?d) [] (c_reader ?d) (limited ?d) = (r, b, n)"
    by (metis prod_cases3)
  have "client_readLine ctx c = (r, resume (\<not> is_done r) (?d\<lparr>c_reader := b\<rparr>) n)"
    unfolding client_readLine_def lp Let_def by simp
  moreover have "sent n = sent (c_conn c)"
    using client_readLine_loop_same_peer [OF lp] by (simp add: same_peer_def)
  ultimately show ?thesis by simp
qed

lemma exchange_sent:
  assumes "can_write ctx c" "unfired c" "wbuf (c_writer c) = []"
  shows "sent (c_conn (snd (exchange ctx line c))) = sent (c_conn c) @ line @ CRLF"
proof -
  define d where "d = set_write_deadline ctx c"
  have h: "healthy (c_writer c, limited d)" using assms(1) by (simp add: can_write_def d_def)
  obtain w n where w: "bufw_Write (c_writer c, limited d) (line @ CRLF) = (None, w, n)" "healthy (w, n)"
    "stream (w, n) = stream (c_writer c, limited d) @ line @ CRLF"
    using healthy_bufw_Write [OF h, of "line @ CRLF"] by auto
  obtain v m where v: "Flush (w, n) = (None, v, m)" "sent m = stream (w, n)"
    using healthy_Flush [OF w(2)] by auto
  have "writeCmd ctx line c = (Done (), resume False (d\<lparr>c_writer := v\<rparr>) m)"
    using w v settle_unfired [OF assms(2)] unfolding writeCmd_def by (simp add: d_def Let_def)
  moreover have "sent m = sent (c_conn c) @ line @ CRLF"
    using v(2) w(3) h assms(3) by (simp add: stream_def healthy_def d_def)
  ultimately show ?thesis by (simp add: exchange_def and_then_def client_readLine_sent)
qed

lemma AuthPlain_sent:
  assumes "ready ctx c" "unfired (watched ctx c)" "wbuf (c_writer c) = []"
  shows "sent (c_conn (snd (AuthPlain ctx i u p c))) =
    sent (c_conn c) @ (''AUTH PLAIN '' @ EncodeToString (i @ NUL # u @ NUL # p)) @ CRLF"
proof -
  let ?l = "''AUTH PLAIN '' @ EncodeToString (i @ NUL # u @ NUL # p)"
  have "sent (c_conn (snd (exchange ctx ?l (watched ctx c)))) = sent (c_conn c) @ ?l @ CRLF"
    using exchange_sent [of ctx "watched ctx c" ?l] assms by (simp add: ready_def)
  then show ?thesis
    using arm_watched [OF assms(2)]
    by (auto simp: AuthPlain_def guard_def and_then_def fail_def return_def split: prod.splits reply.splits)
qed

section \<open>Message bodies\<close>

fun lf_ok :: "char \<Rightarrow> bytes \<Rightarrow> bool" where
  "lf_ok prev [] = True"
| "lf_ok prev (b # s) = ((b = LF \<longrightarrow> prev = CR) \<and> lf_ok b s)"

lemma lf_ok_append: "lf_ok prev (s @ t) \<longleftrightarrow> lf_ok prev s \<and> lf_ok (if s = [] then prev else last s) t"
  by (induction s arbitrary: prev) auto

lemma lf_ok_crlf_norm: "lf_ok prev (crlf_norm prev s)"
  by (induction s arbitrary: prev) auto

lemma lf_ok_delivered: "lf_ok NUL (delivered s)"
  using lf_ok_crlf_norm [of NUL s] by (auto simp: delivered_def terminated_def lf_ok_append)

lemma lf_ok_lines:
  assumes "lf_ok prev s" "s = [] \<or> last s = LF"
  shows "(\<forall>l \<in> set (tl (lines_of s)). \<exists>c. l = c @ CRLF \<and> LF \<notin> set c)
    \<and> (s \<noteq> [] \<longrightarrow> (\<exists>c. (prev = CR \<and> hd (lines_of s) = [LF] \<or> hd (lines_of s) = c @ CRLF) \<and> LF \<notin> set c))"
  using assms
proof (induction s arbitrary: prev)
  case (Cons b s)
  then have ih: "(\<forall>l \<in> set (tl (lines_of s)). \<exists>c. l = c @ CRLF \<and> LF \<notin> set c)"
    "s \<noteq> [] \<longrightarrow> (\<exists>c. (b = CR \<and> hd (lines_of s) = [LF] \<or> hd (lines_of s) = c @ CRLF) \<and> LF \<notin> set c)"
    by (auto split: if_splits)
  show ?case
  proof (cases "b = LF")
    case True
    have "\<forall>l \<in> set (lines_of s). \<exists>c. l = c @ CRLF \<and> LF \<notin> set c"
    proof (cases "lines_of s")
      case (Cons l ls)
      then have "s \<noteq> []" by auto
      with ih(2) True Cons have "\<exists>c. l = c @ CRLF \<and> LF \<notin> set c" by auto
      with ih(1) Cons show ?thesis by simp
    qed simp
    with True Cons.prems show ?thesis by (auto intro: exI [of _ "[]"])
  next
    case False
    then have "s \<noteq> []" using Cons.prems(2) by auto
    then obtain l ls where ls: "lines_of s = l # ls" by (cases "lines_of s") auto
    from ih(2) \<open>s \<noteq> []\<close> ls obtain c where c: "b = CR \<and> l = [LF] \<or> l = c @ CRLF" "LF \<notin> set c" by auto
    have "\<exists>c'. b # l = c' @ CRLF \<and> LF \<notin> set c'"
      using c
    proof (elim disjE conjE)
      assume "b = CR" "l = [LF]"
      then show ?thesis by (intro exI [of _ "[]"]) simp
    next
      assume "l = c @ CRLF" "LF \<notin> set c"
      with False show ?thesis by (intro exI [of _ "b # c"]) simp
    qed
    with ih(1) ls False show ?thesis by auto
  qed
qed simp

lemma delivered_lines:
  obtains cs where "lines_of (delivered s) = map (\<lambda>l. l @ CRLF) cs" "\<forall>l \<in> set cs. LF \<notin> set l"
proof -
  have "\<forall>l \<in> set (lines_of (delivered s)). \<exists>c. l = c @ CRLF \<and> LF \<notin> set c"
    using lf_ok_lines [OF lf_ok_delivered delivered_ended, of s]
    by (cases "lines_of (delivered s)") auto
  then obtain f where f: "\<forall>l \<in> set (lines_of (delivered s)). l = f l @ CRLF \<and> LF \<notin> set (f l)" by metis
  have "lines_of (delivered s) = map (\<lambda>l. l @ CRLF) (map f (lines_of (delivered s)))"
    using f by (simp add: map_idI)
  with f show thesis by (intro that [of "map f (lines_of (delivered s))"]) auto
qed

lemma unstuff_stuff: "unstuffLine (stuff_line l) = l"
  by (cases l) (auto simp: unstuffLine_def HasPrefix_def)

lemma stuff_line_neq_dot: "stuff_line l \<noteq> [DOT]"
  by (cases l) auto

lemma stuff_line_crlf: "stuff_line (l @ CRLF) = stuff_line l @ CRLF"
  by (cases l) auto

lemma body_ReadAll_drain:
  "body_ReadAll k acc b c = body_ReadAll k (acc @ b_buf b) (b\<lparr>b_buf := []\<rparr>) c"
proof (induction "length (b_buf b)" arbitrary: acc b rule: less_induct)
  case less
  show ?case
  proof (cases "b_buf b")
    case Nil
    then have eq: "b\<lparr>b_buf := []\<rparr> = b" by (cases b) simp
    show ?thesis by (simp only: Nil append_Nil2 eq)
  next
    case (Cons x xs)
    then have "body_ReadAll k acc b c =
        body_ReadAll k (acc @ take (Suc k) (b_buf b)) (b\<lparr>b_buf := drop (Suc k) (b_buf b)\<rparr>) c"
      by (simp add: body_ReadAll.simps [of k acc b c] body_Read_def body_take_def)
    also have "\<dots> = body_ReadAll k (acc @ b_buf b) (b\<lparr>b_buf := []\<rparr>) c"
      using less [of "b\<lparr>b_buf := drop (Suc k) (b_buf b)\<rparr>" "acc @ take (Suc k) (b_buf b)"] Cons by simp
    finally show ?thesis .
  qed
qed

lemma newBody_frame [simp]:
  "b_ctx (newBody ctx) = ctx" "b_buf (newBody ctx) = []" "\<not> b_done (newBody ctx)" "b_stop (newBody ctx)"
  by (simp_all add: newBody_def)

lemma body_ReadAll_line:
  assumes "client_readLine ctx c = (Done line, c')" "line \<noteq> [DOT]"
  shows "body_ReadAll k acc (newBody ctx) c = body_ReadAll k (acc @ unstuffLine line @ CRLF) (newBody ctx) c'"
proof -
  let ?u = "unstuffLine line @ CRLF"
  have "body_ReadAll k acc (newBody ctx) c =
      body_ReadAll k (acc @ take (Suc k) ?u) ((newBody ctx)\<lparr>b_buf := drop (Suc k) ?u\<rparr>) c'"
    using assms by (simp add: body_ReadAll.simps [of k acc "newBody ctx" c] body_Read_def body_take_def)
  also have "\<dots> = body_ReadAll k (acc @ ?u) ((newBody ctx)\<lparr>b_buf := []\<rparr>) c'"
    by (subst body_ReadAll_drain) (simp del: append_assoc take_append drop_append add: append_assoc [of acc])
  also have "(newBody ctx)\<lparr>b_buf := []\<rparr> = newBody ctx" by (simp add: newBody_def)
  finally show ?thesis .
qed

text \<open>The guard of the call that delivered the body is armed and not yet released.\<close>

lemma body_ReadAll_lines:
  assumes "expects ctx c evs (concat (map (\<lambda>l. stuff_line l @ CRLF) cs) @ DOT # CRLF @ rest)"
    and "\<forall>l \<in> set cs. LF \<notin> set l \<and> int (length (stuff_line l)) \<le> maxLine c" and "1 \<le> maxLine c"
    and "same_client (watched ctx d) c"
  shows "\<exists>b' c'. body_ReadAll k acc (newBody ctx) c = (Done (acc @ concat (map (\<lambda>l. l @ CRLF) cs)), b', c')
    \<and> b_done b' \<and> awaits ctx c' evs rest \<and> same_client d c'"
  using assms
proof (induction cs arbitrary: acc c)
  case Nil
  obtain c' where c': "client_readLine ctx c = (Done [DOT], c')" "expects ctx c' evs rest" "same_client c c'"
    using client_readLine_crlf [of ctx c evs "[DOT]" rest] Nil.prems(1,3) by auto
  moreover have "awaits ctx (stop ctx c') evs rest" "same_client d (stop ctx c')"
    using stop_awaits [OF c'(2) same_client_trans [OF Nil.prems(4) c'(3)]] by simp_all
  ultimately show ?case
    by (simp add: body_ReadAll.simps [of k acc "newBody ctx" c] body_Read_def finish_def)
next
  case (Cons l cs)
  let ?rest = "concat (map (\<lambda>l. stuff_line l @ CRLF) cs) @ DOT # CRLF @ rest"
  have "LF \<notin> set (stuff_line l)" using Cons.prems(2) by (cases l) auto
  then obtain c1 where c1: "client_readLine ctx c = (Done (stuff_line l), c1)" "expects ctx c1 evs ?rest" "same_client c c1"
    using client_readLine_crlf [of ctx c evs "stuff_line l" ?rest] Cons.prems by auto
  have "\<exists>b' c'. body_ReadAll k (acc @ l @ CRLF) (newBody ctx) c1 =
      (Done ((acc @ l @ CRLF) @ concat (map (\<lambda>l. l @ CRLF) cs)), b', c')
    \<and> b_done b' \<and> awaits ctx c' evs rest \<and> same_client d c'"
    by (rule Cons.IH) (use c1 Cons.prems in \<open>auto simp: same_client_def\<close>)
  with body_ReadAll_line [OF c1(1) stuff_line_neq_dot] show ?case
    by (auto simp: unstuff_stuff)
qed

lemma body_round_trip_all:
  assumes "expects ctx c evs (wire_body data @ rest)" and "same_client (watched ctx d) c"
    and "\<forall>l \<in> set (lines_of (stuffed_body data)). int (length l) \<le> maxLine c + 2" and "1 \<le> maxLine c"
  shows "\<exists>b' c'. body_ReadAll k [] (newBody ctx) c = (Done (delivered data), b', c')
    \<and> b_done b' \<and> awaits ctx c' evs rest \<and> same_client d c'"
proof -
  obtain cs where cs: "lines_of (delivered data) = map (\<lambda>l. l @ CRLF) cs" "\<forall>l \<in> set cs. LF \<notin> set l"
    by (rule delivered_lines)
  have sb: "stuffed_body data = concat (map (\<lambda>l. stuff_line l @ CRLF) cs)"
    by (simp add: stuffed_body_def cs(1) stuff_line_crlf comp_def)
  have dv: "delivered data = concat (map (\<lambda>l. l @ CRLF) cs)"
    using concat_lines_of [of "delivered data"] cs(1) by simp
  have "\<forall>l \<in> set cs. int (length (stuff_line l)) \<le> maxLine c"
    using assms(3) by (auto simp: lines_of_stuffed_body cs(1) stuff_line_crlf)
  then show ?thesis
    using body_ReadAll_lines [of ctx c evs cs rest d k "[]"] assms(1,2,4) cs(2) by (auto simp: wire_body_def sb dv)
qed

text \<open>
  C11: a message survives the transfer. A client that reads the body the server sends for a message,
  into a buffer of any size and in whatever segments the bytes arrive before its context is done, gets
  the message with CRLF line ends and a terminated last line, with every leading dot restored, provided
  no line exceeds its line limit; the connection is left exactly behind the terminator, and the guard
  the retrieval had armed is released.
\<close>

theorem body_round_trip:
  assumes "awaits ctx c evs (wire_body data @ rest)"
    and "\<forall>l \<in> set (lines_of (stuffed_body data)). int (length l) \<le> maxLine c + 2" and "1 \<le> maxLine c"
  shows "\<exists>b' c'. body_ReadAll k [] (newBody ctx) (watched ctx c) = (Done (delivered data), b', c')
    \<and> b_done b' \<and> awaits ctx c' evs rest \<and> guards c' = guards c"
  using body_round_trip_all [of ctx "watched ctx c" evs data rest c k] assms
  by (auto simp: same_client_def awaits_def)

section \<open>RETR from the maildrop to the client\<close>

lemma retrieve_awaits:
  assumes "ready ctx c" "awaits ctx c evs (status_line ''+OK'' msg @ rest)"
    "int (length (status_line ''+OK'' msg)) \<le> maxLine c"
  shows "\<exists>c'. retrieve ctx cmd c = (Done (newBody ctx), c') \<and> expects ctx c' evs rest
    \<and> same_client (watched ctx c) c'"
proof -
  let ?l = "if msg = [] then ''+OK'' else ''+OK'' @ '' '' @ sanitizeResponse msg"
  have "expects ctx (watched ctx c) evs (?l @ CRLF @ rest)" "LF \<notin> set ?l" "int (length ?l) \<le> maxLine c"
    using assms(2,3) by (auto simp: status_line_def awaits_def)
  then obtain c' where c': "exchange ctx cmd (watched ctx c) = (Done ?l, c')" "expects ctx c' evs rest"
    "same_client (watched ctx c) c'"
    using exchange_expects [of ctx "watched ctx c" evs ?l rest cmd] assms(1) by (auto simp: ready_def)
  moreover have "arm ctx c = watched ctx c"
    using assms(2) by (intro arm_watched) (simp add: awaits_def expects_def)
  moreover have "isOK ?l" by (simp add: isOK_def HasPrefix_def)
  ultimately show ?thesis by (simp add: retrieve_def and_then_def return_def)
qed

text \<open>
  C5: RETR end to end. What the server's RETR handler sends for message number \<open>msg\<close> of a session
  on the in-memory maildrop, a client's Retr followed by reading to the end turns back into that
  message, with CRLF line ends and a terminated last line.
\<close>

theorem retr_end_to_end:
  assumes "meths srv = mem_session" and "sound sc" and "parseMsgNum args = Inr msg"
    and "msgAt msg (snd (session sc)) = Inr m"
    and "out (handleRetr srv args sc) = out sc @ response"
    and "ready ctx c" and "awaits ctx c evs (response @ rest)"
    and "\<forall>l \<in> set (lines_of (stuffed_body (Data m))). int (length l) \<le> maxLine c + 2" and "21 \<le> maxLine c"
  shows "\<exists>b c1 b' c2. client_Retr ctx msg c = (Done b, c1)
    \<and> body_ReadAll k [] b c1 = (Done (delivered (Data m)), b', c2) \<and> awaits ctx c2 evs rest
    \<and> guards c2 = guards c"
proof -
  have rt: "s_Retr (meths srv) msg (session sc) = (Ret (Some (bytes_body (Data m))), session sc)"
    using assms(1,4) by (simp add: mem_session_def mem_Retr_def)
  have "response = status_line ''+OK'' ''Message follows'' @ wire_body (Data m)"
    using handleRetr_out [OF assms(2,3) rt] assms(5) by (simp add: bytes_body_def retr_status_def)
  then have aw: "awaits ctx c evs (status_line ''+OK'' ''Message follows'' @ wire_body (Data m) @ rest)"
    using assms(7) by simp
  have len: "int (length (status_line ''+OK'' ''Message follows'')) \<le> maxLine c"
    using assms(9) by (simp add: status_line_def sanitizeResponse_filter)
  obtain c1 where c1: "client_Retr ctx msg c = (Done (newBody ctx), c1)"
    "expects ctx c1 evs (wire_body (Data m) @ rest)" "same_client (watched ctx c) c1"
    using retrieve_awaits [OF assms(6) aw len] unfolding client_Retr_def by blast
  have "maxLine c1 = maxLine c" using c1(3) by (simp add: same_client_def)
  then obtain b' c2 where "body_ReadAll k [] (newBody ctx) c1 = (Done (delivered (Data m)), b', c2)"
    "awaits ctx c2 evs rest" "guards c2 = guards c"
    using body_round_trip_all [OF c1(2,3), of k] assms(8,9) by (auto simp: same_client_def)
  with c1(1) show ?thesis by blast
qed

section \<open>STAT, LIST and UIDL\<close>

lemma readMultiLine_loop_lines:
  assumes "expects ctx c evs (concat (map (\<lambda>l. l @ CRLF) ls) @ DOT # CRLF @ rest)"
    and "\<forall>l \<in> set ls. LF \<notin> set l \<and> l \<noteq> [DOT] \<and> int (length l) \<le> maxLine c" and "1 \<le> maxLine c"
    and "int (length acc + length ls) \<le> maxRespLines c"
  shows "\<exists>c'. readMultiLine_loop ctx acc c = (Done (acc @ map unstuffLine ls), c')
    \<and> expects ctx c' evs rest \<and> same_client c c'"
  using assms
proof (induction ls arbitrary: acc c)
  case Nil
  then obtain c' where "client_readLine ctx c = (Done [DOT], c')" "expects ctx c' evs rest" "same_client c c'"
    using client_readLine_crlf [of ctx c evs "[DOT]" rest] by auto
  then show ?case by (simp add: readMultiLine_loop.simps [of ctx acc c])
next
  case (Cons l ls)
  let ?rest = "concat (map (\<lambda>l. l @ CRLF) ls) @ DOT # CRLF @ rest"
  obtain c1 where c1: "client_readLine ctx c = (Done l, c1)" "expects ctx c1 evs ?rest" "same_client c c1"
    using client_readLine_crlf [of ctx c evs l ?rest] Cons.prems by auto
  have "\<exists>c'. readMultiLine_loop ctx (acc @ [unstuffLine l]) c1 =
      (Done ((acc @ [unstuffLine l]) @ map unstuffLine ls), c') \<and> expects ctx c' evs rest \<and> same_client c1 c'"
    by (rule Cons.IH) (use c1 Cons.prems in \<open>auto simp: same_client_def\<close>)
  with c1 Cons.prems show ?case
    by (auto simp: readMultiLine_loop.simps [of ctx acc c] same_client_def)
qed

definition in_int64 :: "int \<Rightarrow> bool" where
  "in_int64 i \<longleftrightarrow> - (2 ^ 63) \<le> i \<and> i < 2 ^ 63"

lemma is_digit_DOT: "\<not> is_digit DOT"
  by (simp add: is_digit_def byte_def)

lemma fmt_d_hd: "fmt_d i \<noteq> []" "LF \<notin> set (fmt_d i)" "hd (fmt_d i) \<noteq> DOT"
proof -
  have pw: "plain_word (fmt_d i)" by (rule plain_word_fmt_d)
  then show "fmt_d i \<noteq> []" by (simp add: plain_word_def)
  show "LF \<notin> set (fmt_d i)"
    using pw by (auto simp: plain_word_def list_all_iff plain_char_def ascii_space_def byte_def)
  have "hd (dec n) \<in> set (dec n)" for n using plain_word_dec [of n] by (intro hd_in_set) (simp add: plain_word_def)
  then have "is_digit (hd (dec n))" for n using dec_digits [of n] by (auto simp: list_all_iff)
  then have "hd (dec n) \<noteq> DOT" for n by (metis is_digit_DOT)
  then show "hd (fmt_d i) \<noteq> DOT" by (auto simp: fmt_d_def)
qed

lemma unstuff_numbered: "unstuffLine (fmt_d i @ s) = fmt_d i @ s"
  using fmt_d_hd(1,3) [of i] by (cases "fmt_d i") (auto simp: unstuffLine_def HasPrefix_def)

lemma parseNumSize_line:
  assumes "in_int64 num" "in_int64 sz"
  shows "parseNumSize fmt_q (fmt_d num @ '' '' @ fmt_d sz) = Inr (num, sz)"
proof -
  have "Fields (fmt_d num @ '' '' @ fmt_d sz) = [fmt_d num, fmt_d sz]"
    using Fields_Join [of "[fmt_d num, fmt_d sz]"] by (simp add: plain_word_fmt_d)
  then show ?thesis
    using ParseInt_fmt_d [of num] ParseInt_fmt_d [of sz] assms by (simp add: parseNumSize_def in_int64_def)
qed

lemma parseNumUID_line:
  assumes "in_int64 num" "plain_word uid"
  shows "parseNumUID fmt_q (fmt_d num @ '' '' @ uid) = Inr (num, uid)"
proof -
  have "Fields (fmt_d num @ '' '' @ uid) = [fmt_d num, uid]"
    using Fields_Join [of "[fmt_d num, uid]"] assms(2) by (simp add: plain_word_fmt_d)
  then show ?thesis
    using ParseInt_fmt_d [of num] assms by (simp add: parseNumUID_def in_int64_def)
qed

lemma parse_lines_map:
  "(\<And>i. i \<in> set is \<Longrightarrow> f (w i) = Inr (v i)) \<Longrightarrow> parse_lines f (map w is) = Inr (map v is)"
  by (induction "is") auto

lemma plain_word_no_eol: "plain_word w \<Longrightarrow> CR \<notin> set w \<and> LF \<notin> set w"
  by (auto simp: plain_word_def list_all_iff plain_char_def ascii_space_def byte_def)

text \<open>
  STAT end to end. What the server's STAT handler sends for a count and a size, the client's Stat
  returns as that count and that size.
\<close>

theorem stat_end_to_end:
  assumes "sound sc" and "s_Stat (meths srv) (session sc) = (Ret (count, sz), s')"
    and "out (handleStat srv sc) = out sc @ response" and "in_int64 count" and "in_int64 sz"
    and "ready ctx c" and "awaits ctx c evs (response @ rest)"
    and "int (length response) \<le> maxLine c"
  shows "\<exists>c'. client_Stat ctx c = (Done (count, sz), c') \<and> awaits ctx c' evs rest"
proof -
  let ?l = "''+OK '' @ fmt_d count @ '' '' @ fmt_d sz"
  have resp: "response = ?l @ CRLF"
    using assms(1-3) by (simp add: handleStat_def invoke_def out_write_string)
  have lf: "LF \<notin> set ?l" using fmt_d_hd(2) by auto
  obtain c' where c': "Cmd ctx ''STAT'' c = (Done ?l, c')" "awaits ctx c' evs rest"
    using Cmd_awaits [OF assms(6), of evs ?l rest "''STAT''"] assms(7,8) lf by (auto simp: resp)
  have ok: "plain_word ''+OK''" by (simp add: plain_word_def plain_char_def is_ascii_def ascii_space_def byte_def)
  have "Fields ?l = [''+OK'', fmt_d count, fmt_d sz]"
    using Fields_Join [of "[''+OK'', fmt_d count, fmt_d sz]"] ok by (simp add: plain_word_fmt_d)
  then show ?thesis
    using c' ParseInt_fmt_d [of count] ParseInt_fmt_d [of sz] assms(4,5)
    by (simp add: client_Stat_def and_then_def isOK_def HasPrefix_def return_def in_int64_def)
qed

text \<open>What a scan listing puts on the wire, and that the client takes it apart again.\<close>

definition listing :: "('i \<Rightarrow> bytes) \<Rightarrow> 'i list \<Rightarrow> bytes" where
  "listing w items = ''+OK '' @ fmt_d (int (length items)) @ '' messages'' @ CRLF
     @ concat (map (\<lambda>i. w i @ CRLF) items) @ DOT # CRLF"

definition info_line :: "MessageInfo \<Rightarrow> bytes" where
  "info_line i = fmt_d (Info_Num i) @ '' '' @ fmt_d (Info_Size i)"

definition uidl_line :: "MessageUidl \<Rightarrow> bytes" where
  "uidl_line i = fmt_d (Uidl_Num i) @ '' '' @ sanitizeResponse (Uidl_UniqueID i)"

lemma handleList_out:
  assumes "sound c" "s_List (meths srv) 0 (session c) = (Ret items, s')"
  shows "out (handleList srv [] c) = out c @ listing info_line items"
proof -
  let ?c = "add_event (EvCall (CList 0) True) (c\<lparr>session := s'\<rparr>)"
  let ?w = "\<lambda>item. fmt_d (Info_Num item) @ '' '' @ fmt_d (Info_Size item) @ CRLF"
  have "sound ?c" "out ?c = out c" using assms(1) by simp_all
  then have "out (handleList srv [] c) = out c @ (''+OK '' @ fmt_d (int (length items)) @ '' messages'' @ CRLF)
      @ concat (map ?w items) @ DOT # CRLF"
    using assms(2)
    by (simp add: handleList_def parseOptionalMsgNum_def invoke_def out_write_string out_fold Let_def)
  then show ?thesis by (simp add: listing_def info_line_def)
qed

lemma handleUidl_out:
  assumes "sound c" "s_Uidl (meths srv) 0 (session c) = (Ret items, s')"
  shows "out (handleUidl srv [] c) = out c @ listing uidl_line items"
proof -
  let ?c = "add_event (EvCall (CUidl 0) True) (c\<lparr>session := s'\<rparr>)"
  let ?w = "\<lambda>item. fmt_d (Uidl_Num item) @ '' '' @ sanitizeResponse (Uidl_UniqueID item) @ CRLF"
  have "sound ?c" "out ?c = out c" using assms(1) by simp_all
  then have "out (handleUidl srv [] c) = out c @ (''+OK '' @ fmt_d (int (length items)) @ '' messages'' @ CRLF)
      @ concat (map ?w items) @ DOT # CRLF"
    using assms(2)
    by (simp add: handleUidl_def parseOptionalMsgNum_def invoke_def out_write_string out_fold Let_def)
  then show ?thesis by (simp add: listing_def uidl_line_def)
qed

lemma is_line_crlf: "LF \<notin> set l \<Longrightarrow> is_line (l @ CRLF)"
  by (simp add: is_line_def butlast_append)

lemma listing_expects:
  assumes "can_write ctx c" "expects ctx c evs (listing w items @ rest)"
    and "\<forall>l \<in> set (lines_of (listing w items)). int (length l) \<le> maxLine c"
    and "int (length items) \<le> maxRespLines c"
    and w: "\<And>i. i \<in> set items \<Longrightarrow> LF \<notin> set (w i) \<and> w i \<noteq> [DOT] \<and> unstuffLine (w i) = w i"
  shows "\<exists>status c1 c2. exchange ctx cmd c = (Done status, c1) \<and> isOK status
    \<and> readMultiLine ctx c1 = (Done (map w items), c2) \<and> expects ctx c2 evs rest \<and> same_client c c2"
proof -
  let ?l = "''+OK '' @ fmt_d (int (length items)) @ '' messages''"
  let ?rest = "concat (map (\<lambda>i. w i @ CRLF) items) @ DOT # CRLF"
  have lf: "LF \<notin> set ?l" using fmt_d_hd(2) by auto
  have lines: "lines_of (concat (map (\<lambda>l. l @ CRLF) (?l # map w items)) @ DOT # CRLF) =
      map (\<lambda>l. l @ CRLF) (?l # map w items) @ lines_of (DOT # CRLF)"
    by (rule lines_of_concat) (use is_line_crlf [OF lf] is_line_crlf w in \<open>auto simp: list_all_iff\<close>)
  have len: "int (length ?l) \<le> maxLine c" "1 \<le> maxLine c" "\<forall>i \<in> set items. int (length (w i)) \<le> maxLine c"
    using assms(3) lines by (auto simp: listing_def comp_def)
  obtain c1 where c1: "exchange ctx cmd c = (Done ?l, c1)" "expects ctx c1 evs (?rest @ rest)" "same_client c c1"
    using exchange_expects [OF assms(1), of evs ?l "?rest @ rest" cmd] assms(2) lf len by (auto simp: listing_def)
  have "\<exists>c2. readMultiLine_loop ctx [] c1 = (Done ([] @ map unstuffLine (map w items)), c2)
      \<and> expects ctx c2 evs rest \<and> same_client c1 c2"
    by (rule readMultiLine_loop_lines)
      (use c1 len w assms(4) in \<open>auto simp: same_client_def comp_def\<close>)
  moreover have "map unstuffLine (map w items) = map w items" using w by simp
  moreover have "isOK ?l" by (simp add: isOK_def HasPrefix_def)
  ultimately show ?thesis using c1(1,3) by (auto simp: readMultiLine_def intro: same_client_trans)
qed

text \<open>
  C26: LIST end to end. The items the session lists, written by the server's LIST handler, are the
  items the client's List returns, in the same order.
\<close>

theorem list_end_to_end:
  assumes "sound sc" and "s_List (meths srv) 0 (session sc) = (Ret items, s')"
    and "out (handleList srv [] sc) = out sc @ response"
    and "\<forall>i \<in> set items. in_int64 (Info_Num i) \<and> in_int64 (Info_Size i)"
    and "ready ctx c" and "awaits ctx c evs (response @ rest)"
    and "\<forall>l \<in> set (lines_of response). int (length l) \<le> maxLine c"
    and "int (length items) \<le> maxRespLines c"
  shows "\<exists>c'. client_List fmt_q ctx c = (Done items, c') \<and> awaits ctx c' evs rest"
proof -
  have resp: "response = listing info_line items"
    using handleList_out [OF assms(1,2)] assms(3) by simp
  have w: "LF \<notin> set (info_line i) \<and> info_line i \<noteq> [DOT] \<and> unstuffLine (info_line i) = info_line i" for i
    using fmt_d_hd unstuff_numbered [of "Info_Num i"] by (auto simp: info_line_def Cons_eq_append_conv append_eq_Cons_conv)
  have p: "parse_lines (parseNumSize fmt_q) (map info_line items) = Inr (map (\<lambda>i. (Info_Num i, Info_Size i)) items)"
    using assms(4) parseNumSize_line by (intro parse_lines_map) (simp add: info_line_def)
  have "\<lparr>Info_Num = Info_Num i, Info_Size = Info_Size i\<rparr> = i" for i :: MessageInfo by (cases i) simp
  then have m: "map (\<lambda>i. \<lparr>Info_Num = Info_Num i, Info_Size = Info_Size i\<rparr>) items = items" by (rule map_idI)
  have "\<exists>c'. client_List fmt_q ctx c = (Done items, c') \<and> awaits ctx c' evs rest \<and> same_client c c'"
    unfolding client_List_def
  proof (rule guard_awaits [OF assms(6)])
    show "\<exists>c'. and_then (exchange ctx ''LIST'')
        (\<lambda>status. if \<not> isOK status then fail (ProtocolError status)
          else and_then (readMultiLine ctx)
            (\<lambda>lines. and_then (lift_result (parse_lines (parseNumSize fmt_q) lines))
              (\<lambda>ps. return (map (\<lambda>(num, sz). \<lparr>Info_Num = num, Info_Size = sz\<rparr>) ps)))) (watched ctx c) = (Done items, c')
      \<and> expects ctx c' evs rest \<and> same_client (watched ctx c) c'"
      using listing_expects [of ctx "watched ctx c" evs info_line items rest "''LIST''"] assms(5-8) w p m
      by (auto simp: resp and_then_def lift_result_def return_def comp_def ready_def awaits_def)
  qed
  then show ?thesis by blast
qed

text \<open>
  UIDL end to end. Unique-ids of printable characters without blanks, as RFC 1939 demands, reach
  the client as the session gave them, each with its message number.
\<close>

theorem uidl_end_to_end:
  assumes "sound sc" and "s_Uidl (meths srv) 0 (session sc) = (Ret items, s')"
    and "out (handleUidl srv [] sc) = out sc @ response"
    and "\<forall>i \<in> set items. in_int64 (Uidl_Num i) \<and> plain_word (Uidl_UniqueID i)"
    and "ready ctx c" and "awaits ctx c evs (response @ rest)"
    and "\<forall>l \<in> set (lines_of response). int (length l) \<le> maxLine c"
    and "int (length items) \<le> maxRespLines c"
  shows "\<exists>c'. client_Uidl fmt_q ctx c = (Done items, c') \<and> awaits ctx c' evs rest"
proof -
  have resp: "response = listing uidl_line items"
    using handleUidl_out [OF assms(1,2)] assms(3) by simp
  have w: "LF \<notin> set (uidl_line i) \<and> uidl_line i \<noteq> [DOT] \<and> unstuffLine (uidl_line i) = uidl_line i" for i
    using fmt_d_hd unstuff_numbered [of "Uidl_Num i"] by (auto simp: uidl_line_def Cons_eq_append_conv append_eq_Cons_conv)
  have "sanitizeResponse (Uidl_UniqueID i) = Uidl_UniqueID i" if "i \<in> set items" for i
    using that assms(4) plain_word_no_eol by (intro sanitizeResponse_clean) blast+
  then have p: "parse_lines (parseNumUID fmt_q) (map uidl_line items) = Inr (map (\<lambda>i. (Uidl_Num i, Uidl_UniqueID i)) items)"
    using assms(4) parseNumUID_line by (intro parse_lines_map) (simp add: uidl_line_def)
  have "\<lparr>Uidl_Num = Uidl_Num i, Uidl_UniqueID = Uidl_UniqueID i\<rparr> = i" for i :: MessageUidl by (cases i) simp
  then have m: "map (\<lambda>i. \<lparr>Uidl_Num = Uidl_Num i, Uidl_UniqueID = Uidl_UniqueID i\<rparr>) items = items" by (rule map_idI)
  have "\<exists>c'. client_Uidl fmt_q ctx c = (Done items, c') \<and> awaits ctx c' evs rest \<and> same_client c c'"
    unfolding client_Uidl_def
  proof (rule guard_awaits [OF assms(6)])
    show "\<exists>c'. and_then (exchange ctx ''UIDL'')
        (\<lambda>status. if \<not> isOK status then fail (ProtocolError status)
          else and_then (readMultiLine ctx)
            (\<lambda>lines. and_then (lift_result (parse_lines (parseNumUID fmt_q) lines))
              (\<lambda>ps. return (map (\<lambda>(num, uid). \<lparr>Uidl_Num = num, Uidl_UniqueID = uid\<rparr>) ps)))) (watched ctx c) = (Done items, c')
      \<and> expects ctx c' evs rest \<and> same_client (watched ctx c) c'"
      using listing_expects [of ctx "watched ctx c" evs uidl_line items rest "''UIDL''"] assms(5-8) w p m
      by (auto simp: resp and_then_def lift_result_def return_def comp_def ready_def awaits_def)
  qed
  then show ?thesis by blast
qed

end
