(* ===== verification/Behaviour.thy ===== *)
theory Behaviour
  imports RoundTrip
begin

text \<open>
  What single commands do: the TLS upgrade, the logins and the credentials they pass on, hijacking,
  the capability listing, message numbers, session errors, a silent client; and what the server does
  around a connection: rejecting it, surviving a panic in it, and backing off from a failing listener.
\<close>

section \<open>The TLS upgrade\<close>

text \<open>
  C13: STLS is safe against injection and forgets what came before it. Bytes a client has sent behind
  the STLS command are never carried over into the TLS session: the command is refused and the
  connection dropped without a handshake. And when the upgrade succeeds, the name given with USER
  before it, the read-ahead and the write buffer are gone.
\<close>

theorem stls_upgrade:
  assumes "\<not> isTLS c" and "TLSConfig (opts srv)" and "state c = stateAuthorization"
  shows "(reader c \<noteq> [] \<longrightarrow>
      closePending (handleSTLS srv c) \<and> \<not> isTLS (handleSTLS srv c) \<and> trace (handleSTLS srv c) = trace c)
    \<and> (reader c = [] \<longrightarrow>
      isTLS (handleSTLS srv c) \<and> username (handleSTLS srv c) = [] \<and> reader (handleSTLS srv c) = []
        \<and> writer (handleSTLS srv c) = newWriter srv \<and> trace (handleSTLS srv c) = trace c @ [EvTLS True]
      \<or> closePending (handleSTLS srv c) \<and> \<not> isTLS (handleSTLS srv c)
        \<and> trace (handleSTLS srv c) = trace c @ [EvTLS False])"
  using assms by (auto simp: handleSTLS_def Let_def split: prod.split option.split)

section \<open>Credentials\<close>

lemma split_PASS: "splitCommand (''PASS '' @ pw) = (''PASS'', pw)"
  by (simp add: splitCommand_def)

lemma split_AUTH: "splitCommand (''AUTH '' @ arg) = (''AUTH'', arg)"
  by (simp add: splitCommand_def)

lemma upper_words [simp]: "ToUpper u ''PASS'' = ''PASS''" "ToUpper u ''AUTH'' = ''AUTH''" "ToUpper u ''PLAIN'' = ''PLAIN''"
  by (simp_all add: ToUpper_def is_ascii_def upper_char_def byte_def)

lemma dispatched_PASS:
  assumes "state c = stateAuthorization"
  shows "dispatched srv (''PASS '' @ pw) c = (False, handlePass srv (prepared srv pw c))"
  using assms by (simp only: dispatched_def split_PASS) (simp add: dispatch_def dispatchAuth_def prepared_def)

lemma after_login_trace:
  "trace (after_login srv (invoke_login srv k m c)) = trace c @ [EvCall k (returned (fst (invoke_login srv k m c)))]"
proof -
  obtain r c' where "invoke_login srv k m c = (r, c')" by fastforce
  then show ?thesis
    using invoke_login_frame(10) [of srv k m c] by (cases r) (auto simp: after_login_def)
qed

text \<open>
  PASS passes the password on as it stands: everything behind the one blank or tab that ends the verb,
  with the name that USER stored.
\<close>

lemma PASS_trace:
  assumes "state c = stateAuthorization" and "authAllowed srv c" and "username c \<noteq> []" and "pw \<noteq> []"
  shows "\<exists>r. trace (snd (dispatched srv (''PASS '' @ pw) c)) = trace c @ [EvCall (CLogin (username c) pw) r]"
proof -
  let ?c = "prepared srv pw c"
  have "authAllowed srv ?c" "username ?c = username c" "rawArg ?c = pw" "trace ?c = trace c"
    using assms(2) by (simp_all add: prepared_def authAllowed_def)
  then show ?thesis
    using assms(3,4) unfolding dispatched_PASS [OF assms(1)]
    by (auto simp: handlePass_def after_login_trace)
qed

lemma mechanism_PLAIN:
  "''PLAIN'' \<in> set (AuthenticateMechanisms sasl (session c)) \<Longrightarrow> mechanismAdvertised srv sasl ''PLAIN'' c"
  by (auto simp: mechanismAdvertised_def list_ex_iff EqualFold_def is_ascii_def byte_def intro!: bexI [of _ "''PLAIN''"])

text \<open>
  C27: SASL PLAIN end to end. A client's AuthPlain sends one line, and that line makes the server call
  AuthenticatePlain with the same three strings, if the session offers PLAIN, the identities hold no
  control characters and the password no NUL.
\<close>

theorem auth_plain_end_to_end:
  assumes "state c = stateAuthorization" and "authAllowed srv c" and "s_SASL (meths srv) = Some sasl"
    and "''PLAIN'' \<in> set (AuthenticateMechanisms sasl (session c))"
    and "\<not> containsCTL i" and "\<not> containsCTL u" and "NUL \<notin> set p"
    and "ready ctx cl" and "unfired (watched ctx cl)" and "wbuf (c_writer cl) = []"
  shows "\<exists>line r. sent (c_conn (snd (AuthPlain ctx i u p cl))) = sent (c_conn cl) @ line @ CRLF
    \<and> trace (snd (dispatched srv line c)) = trace c @ [EvCall (CAuthenticatePlain i u p) r]"
proof -
  let ?e = "EncodeToString (plain_payload i u p)"
  let ?c = "prepared srv (''PLAIN '' @ ?e) c"
  have "?e \<noteq> ''*''"
    using decodeSASLPlain_payload [OF assms(5-7)] by (auto simp: decodeSASLPlain_def DecodeString_def)
  have c: "authAllowed srv ?c" "session ?c = session c" "trace ?c = trace c" "state ?c = state c"
    using assms(2) by (simp_all add: prepared_def authAllowed_def)
  have "mechanismAdvertised srv sasl ''PLAIN'' ?c"
    using mechanism_PLAIN assms(4) c(2) by metis
  then have "handleAuth srv [''PLAIN'', ?e] ?c = auth_response srv sasl ?e ?c"
    using c assms(3) by (simp add: handleAuth_def)
  moreover have "dispatched srv (''AUTH '' @ ''PLAIN '' @ ?e) c = (False, handleAuth srv [''PLAIN'', ?e] ?c)"
    unfolding dispatched_def split_AUTH case_prod_conv Let_def std64.auth_line_fields
    using assms(1) c(4) by (simp add: dispatch_def dispatchAuth_def)
  ultimately have "snd (dispatched srv (''AUTH '' @ ''PLAIN '' @ ?e) c) = auth_response srv sasl ?e ?c" by simp
  moreover have "\<exists>r. trace (auth_response srv sasl ?e ?c) = trace c @ [EvCall (CAuthenticatePlain i u p) r]"
    using decodeSASLPlain_payload [OF assms(5-7)] \<open>?e \<noteq> ''*''\<close> c(3)
    by (simp add: auth_response_def after_login_trace)
  ultimately show ?thesis using AuthPlain_sent [OF assms(8-10)] by (auto simp: plain_payload_def)
qed

section \<open>Hijacking\<close>

lemma Hijack_sound:
  assumes "state c = stateAuthorization" "\<not> hijacked c" "sound c"
  shows "\<exists>c'. Hijack c = (Inr (netConn c', reader c'), c'\<lparr>hijacked := True\<rparr>) \<and> c' = snd (flush c)
    \<and> sent (netConn c') = out c"
proof -
  show ?thesis using assms out_flush(3,4) [OF assms(3)] by (simp add: Hijack_def case_prod_beta)
qed

text \<open>
  C20: a hijacked connection is handed over whole. When Login takes the connection over and returns
  without an error, everything queued so far has been sent, the bytes read ahead are handed over with
  the connection, the library sends nothing more, leaves the loop, and closes the session but not the
  network connection.
\<close>

theorem hijack_hands_over:
  assumes "state c = stateAuthorization" and "authAllowed srv c" and "username c \<noteq> []" and "pw \<noteq> []"
    and "sound c" and "\<not> hijacked c" and "\<not> panicking c" and "\<not> blocked c"
    and "s_Login (meths srv) (username c) pw (session c) = LHijack f"
    and "\<And>n. fst (f (Inr (n, reader c))) = Ret ()"
  shows "\<exists>c'. process_line srv (''PASS '' @ pw) c = (False, c') \<and> hijacked c' \<and> sent (netConn c') = out c
    \<and> session c' = snd (f (Inr (netConn c', reader c))) \<and> reader c' = reader c
    \<and> EvNetClose \<notin> set (drop (length (trace c)) (trace (close srv c')))"
proof -
  let ?c = "prepared srv pw c"
  have p: "state ?c = state c" "hijacked ?c = hijacked c" "sound ?c" "out ?c = out c" "session ?c = session c"
    "username ?c = username c" "rawArg ?c = pw" "reader ?c = reader c" "authAllowed srv ?c = authAllowed srv c"
    "trace ?c = trace c" "panicking ?c = panicking c" "blocked ?c = blocked c"
    using assms(5) by (simp_all add: prepared_def sound_def out_def healthy_def stream_def authAllowed_def SetDeadline_def)
  let ?k = "CLogin (username c) pw"
  let ?e = "elapse srv ?k ?c"
  obtain h where h: "Hijack ?e = (Inr (netConn h, reader h), h\<lparr>hijacked := True\<rparr>)" "h = snd (flush ?e)"
    "sent (netConn h) = out c"
    using Hijack_sound [of ?e] assms(1,5,6) p by auto
  have hr: "reader h = reader c" "trace h = trace c" "panicking h = panicking c" "blocked h = blocked c"
    using p by (simp_all add: h(2))
  obtain s where f: "f (Inr (netConn h, reader c)) = (Ret (), s)"
    using assms(10) [of "netConn h"] by (metis prod.collapse)
  let ?c' = "add_event (EvCall ?k True) (h\<lparr>hijacked := True, session := s\<rparr>)"
  have "invoke_login srv ?k (s_Login (meths srv) (username c) pw) ?c = (Ret (), ?c')"
    using assms(9) h(1) f p(5) hr(1) by (simp add: invoke_login_def)
  then have "handlePass srv ?c = ?c'"
    using assms(2-4) p by (simp add: handlePass_def after_login_def)
  then have d: "dispatched srv (''PASS '' @ pw) c = (False, ?c')"
    unfolding dispatched_PASS [OF assms(1)] by simp
  have "process_line srv (''PASS '' @ pw) c =
      finish_command srv (ToUpper (uni srv) (fst (splitCommand (''PASS '' @ pw)))) (now (netConn c)) False ?c'"
    unfolding process_line_alt d using hr assms(7,8) by simp
  then obtain c2 where c2: "process_line srv (''PASS '' @ pw) c = (False, c2)"
    "c2 = ?c' \<or> (\<exists>cmd t e. c2 = add_event (EvOnCommand cmd t e) ?c')"
    unfolding finish_command_def Let_def by (cases "OnCommand (opts srv)") auto
  have "hijacked c2" "netConn c2 = netConn h" "session c2 = s" "reader c2 = reader c"
    using c2(2) hr(1) by auto
  moreover have "EvNetClose \<notin> set (drop (length (trace c)) (trace (close srv c2)))"
    using c2(2) hr(2) by (auto simp: closing_def)
  ultimately show ?thesis using c2(1) f h(3) by (intro exI [of _ c2]) simp
qed

section \<open>A silent client\<close>

text \<open>
  C24: a client that says nothing is told so, once. With nothing read and nothing to come, the round
  ends at the deadline: one -ERR response goes out, which names the session limit if that has passed and
  the idle limit otherwise, the OnTimeout hook is called once with the same reason, and the loop ends.
  This is so whether or not the server has been closed in the meantime.
\<close>

theorem silent_client_times_out:
  assumes "reader c = []" and "net (netConn c) = []" and "nextReadDeadline srv c = Some d"
    and "sound c" and "OnTimeout (opts srv)"
  shows "\<exists>c' exceeded. serve_step srv c = (False, c')
    \<and> exceeded = (AbsoluteSessionTimeout (opts srv) > 0
        \<and> max (now (netConn c)) d - startTime c \<ge> AbsoluteSessionTimeout (opts srv))
    \<and> trace c' = trace c @ [EvOnTimeout (if exceeded then TimeoutAbsolute else TimeoutIdle)]
    \<and> sent (netConn c') = out c @ status_line ''-ERR''
        (if exceeded then ''[IN-USE] Maximum session duration exceeded'' else ''Idle timeout, connection timed out'')
    \<and> now (netConn c') = max (now (netConn c)) d"
proof -
  let ?n = "(netConn c)\<lparr>rdeadline := Some d\<rparr>"
  let ?r = "c\<lparr>netConn := ?n\<lparr>now := max (now (netConn c)) d\<rparr>\<rparr>"
  have "ReadSlice [] ?n = (SErr [] ErrTimeout, [], ?n\<lparr>now := max (now (netConn c)) d\<rparr>)"
    using assms(2) by (subst ReadSlice.simps) (simp add: conn_Read_def bufsize_def)
  then have rl: "readLine srv (arm_deadline srv c) = (Some (Inl ErrTimeout), ?r)"
    using assms(1,3)
    by (simp add: readLine_def arm_deadline_def SetReadDeadline_def readLine_loop.simps ReadLine_def)
  have "serve_step srv c = (False, read_error srv ErrTimeout ?r)"
    by (simp add: serve_step_def rl)
  moreover have "sound ?r" "out ?r = out c"
    using assms(4) by (auto simp: sound_def out_def healthy_def stream_def)
  ultimately show ?thesis
    using assms(5) by (auto simp: read_error_def on_timeout_def out_flush out_err)
qed

section \<open>Capabilities\<close>

text \<open>The capabilities a connection has, and the line of one.\<close>

definition cap :: "bytes \<Rightarrow> bytes list \<Rightarrow> Capability" where
  "cap name params = \<lparr>Cap_Name = name, Cap_Params = params\<rparr>"

definition capabilities :: "'s Server \<Rightarrow> 's Conn \<Rightarrow> Capability list" where
  "capabilities srv c =
     [cap ''TOP'' [], cap ''UIDL'' []] @ (if authAllowed srv c then [cap ''USER'' []] else [])
     @ [cap ''RESP-CODES'' [], cap ''PIPELINING'' []]
     @ (if TLSConfig (opts srv) \<and> \<not> isTLS c then [cap ''STLS'' []] else [])
     @ (if authAllowed srv c then
          (case s_SASL (meths srv) of
             None \<Rightarrow> []
           | Some sasl \<Rightarrow>
               (let mechs = AuthenticateMechanisms sasl (session c)
                in if mechs \<noteq> [] then [cap ''SASL'' mechs] else []))
        else [])
     @ (if s_Lang (meths srv) \<noteq> None then [cap ''LANG'' []] else [])
     @ (if s_UTF8 (meths srv) \<noteq> None then [cap ''UTF8'' []] else [])
     @ Caps (opts srv)"

definition cap_line :: "Capability \<Rightarrow> bytes" where
  "cap_line k = Cap_Name k @ (if Cap_Params k \<noteq> [] then '' '' @ Join (Cap_Params k) '' '' else []) @ CRLF"

lemma out_writeCap:
  assumes "sound c"
  shows "out (writeCap srv name params c) =
      out c @ (if capSuppressed srv name then [] else cap_line (cap name params))"
    "sound (writeCap srv name params c)"
  using assms by (simp_all add: writeCap_def cap_line_def cap_def out_write_string Let_def)

lemma out_fold_caps:
  assumes "sound c"
  shows "out (fold (\<lambda>k. writeCap srv (Cap_Name k) (Cap_Params k)) ks c) =
      out c @ concat (map cap_line (filter (\<lambda>k. \<not> capSuppressed srv (Cap_Name k)) ks))"
    "sound (fold (\<lambda>k. writeCap srv (Cap_Name k) (Cap_Params k)) ks c)"
proof -
  have eq: "cap (Cap_Name k) (Cap_Params k) = k" for k by (cases k) (simp add: cap_def)
  show "out (fold (\<lambda>k. writeCap srv (Cap_Name k) (Cap_Params k)) ks c) =
      out c @ concat (map cap_line (filter (\<lambda>k. \<not> capSuppressed srv (Cap_Name k)) ks))"
    and "sound (fold (\<lambda>k. writeCap srv (Cap_Name k) (Cap_Params k)) ks c)"
    using assms by (induction ks arbitrary: c) (simp_all add: out_writeCap eq)
qed

text \<open>A capability that is written under a condition.\<close>

definition write_if :: "'s Server \<Rightarrow> bool \<Rightarrow> bytes \<Rightarrow> bytes list \<Rightarrow> 's Conn \<Rightarrow> 's Conn" where
  "write_if srv b name params c = (if b then writeCap srv name params c else c)"

lemma write_if_fold:
  "write_if srv b name params c =
     fold (\<lambda>k. writeCap srv (Cap_Name k) (Cap_Params k)) (if b then [cap name params] else []) c"
  by (simp add: write_if_def cap_def)

lemma write_if_frame: "isTLS (write_if srv b name params c) = isTLS c" "session (write_if srv b name params c) = session c"
  by (simp_all add: write_if_def)

lemma handleCapa_steps:
  "handleCapa srv c =
     (let allowed = authAllowed srv c;
          sasl = (case s_SASL (meths srv) of None \<Rightarrow> [] | Some x \<Rightarrow> AuthenticateMechanisms x (session c));
          c1 = write_string (''+OK Capability list follows'' @ CRLF) c;
          c2 = write_if srv True ''UIDL'' [] (write_if srv True ''TOP'' [] c1);
          c3 = write_if srv allowed ''USER'' [] c2;
          c4 = write_if srv True ''PIPELINING'' [] (write_if srv True ''RESP-CODES'' [] c3);
          c5 = write_if srv (TLSConfig (opts srv) \<and> \<not> isTLS c) ''STLS'' [] c4;
          c6 = write_if srv (allowed \<and> sasl \<noteq> []) ''SASL'' sasl c5;
          c7 = write_if srv (s_Lang (meths srv) \<noteq> None) ''LANG'' [] c6;
          c8 = write_if srv (s_UTF8 (meths srv) \<noteq> None) ''UTF8'' [] c7
      in write_string (DOT # CRLF) (fold (\<lambda>k. writeCap srv (Cap_Name k) (Cap_Params k)) (Caps (opts srv)) c8))"
proof -
  define c1 where "c1 = write_string (''+OK Capability list follows'' @ CRLF) c"
  define c4 where "c4 = write_if srv True ''PIPELINING'' [] (write_if srv True ''RESP-CODES'' []
    (write_if srv (authAllowed srv c) ''USER'' [] (write_if srv True ''UIDL'' [] (write_if srv True ''TOP'' [] c1))))"
  define c5 where "c5 = write_if srv (TLSConfig (opts srv) \<and> \<not> isTLS c) ''STLS'' [] c4"
  have f: "isTLS c4 = isTLS c" "session c5 = session c"
    by (simp_all add: c1_def c4_def c5_def write_if_frame)
  have i: "writeCap srv name params x = write_if srv True name params x"
    "(if b then write_if srv True name params x else x) = write_if srv b name params x" for b name params x
    by (simp_all add: write_if_def)
  have sasl: "(if authAllowed srv c then
        case s_SASL (meths srv) of None \<Rightarrow> c5
        | Some y \<Rightarrow> write_if srv (0 < length (AuthenticateMechanisms y (session c5))) ''SASL''
            (AuthenticateMechanisms y (session c5)) c5
      else c5) =
      write_if srv
        (authAllowed srv c \<and> (case s_SASL (meths srv) of None \<Rightarrow> [] | Some y \<Rightarrow> AuthenticateMechanisms y (session c)) \<noteq> [])
        ''SASL'' (case s_SASL (meths srv) of None \<Rightarrow> [] | Some y \<Rightarrow> AuthenticateMechanisms y (session c)) c5"
    by (auto simp: write_if_def f split: option.split)
  show ?thesis
    unfolding handleCapa_def authAllowed_def [symmetric] i(1)
    unfolding i(2)
    by (simp only: Let_def c1_def [symmetric] c4_def [symmetric] f(1) c5_def [symmetric] i(2) sasl)
qed

lemma handleCapa_fold:
  "handleCapa srv c =
     write_string (DOT # CRLF)
       (fold (\<lambda>k. writeCap srv (Cap_Name k) (Cap_Params k)) (capabilities srv c)
         (write_string (''+OK Capability list follows'' @ CRLF) c))"
proof -
  have "(if authAllowed srv c \<and> l \<noteq> [] then [cap ''SASL'' l] else []) =
      (if authAllowed srv c then (case s_SASL (meths srv) of None \<Rightarrow> []
         | Some sasl \<Rightarrow> (let mechs = AuthenticateMechanisms sasl (session c) in if mechs \<noteq> [] then [cap ''SASL'' mechs] else []))
       else [])"
    if "l = (case s_SASL (meths srv) of None \<Rightarrow> [] | Some y \<Rightarrow> AuthenticateMechanisms y (session c))" for l
    using that by (auto split: option.split)
  then show ?thesis
    by (simp only: handleCapa_steps Let_def write_if_fold capabilities_def fold_append o_apply if_True append_Cons append_Nil fold_Cons fold_Nil id_apply)
qed

text \<open>
  C31: CAPA answers with the capabilities of the connection as it is now, without those that are
  suppressed: USER and SASL only where logging in is allowed, STLS only where the upgrade is possible,
  SASL, LANG and UTF8 only for sessions that support them, then the configured ones, and the terminator.
\<close>

theorem capa_response:
  assumes "sound c"
  shows "out (handleCapa srv c) = out c @ ''+OK Capability list follows'' @ CRLF
    @ concat (map cap_line (filter (\<lambda>k. \<not> capSuppressed srv (Cap_Name k)) (capabilities srv c))) @ DOT # CRLF"
  using assms by (simp add: handleCapa_fold out_write_string out_fold_caps)

section \<open>Message numbers\<close>

text \<open>
  A message number is accepted exactly if the first argument is a string of digits whose value is
  between 1 and the largest 32-bit integer; no longer string of digits wraps around into a number.
\<close>

theorem parseMsgNum_accepts:
  "parseMsgNum args = Inr n \<longleftrightarrow>
     (\<exists>a rest. args = a # rest \<and> a \<noteq> [] \<and> list_all is_digit a \<and> n = digits_value a \<and> 1 \<le> n \<and> n \<le> 2 ^ 31 - 1)"
proof (cases args)
  case (Cons a rest)
  show ?thesis
  proof (cases "parseInt a")
    case (Inl e)
    then show ?thesis using Cons parseInt_Inr_iff [of a n] by (auto simp: parseMsgNum_def)
  next
    case (Inr k)
    then show ?thesis using Cons parseInt_Inr_iff [of a k] by (auto simp: parseMsgNum_def)
  qed
qed (simp add: parseMsgNum_def)

section \<open>Errors of the session\<close>

text \<open>
  Errors of the session are answered, not counted. Whatever a session method returns in the
  TRANSACTION state, an error included, the command makes exactly one call and leaves the error count,
  the state and the stored user name as they were.
\<close>

theorem session_errors_not_counted:
  assumes "parseMsgNum args = Inr msg" and "parseOptionalMsgNum oargs = Inr omsg"
  shows "\<forall>kc \<in> {(CStat, handleStat srv c), (CList omsg, handleList srv oargs c), (CUidl omsg, handleUidl srv oargs c),
      (CRetr msg, handleRetr srv args c), (CDele msg, handleDele srv args c), (CRset, handleRset srv c),
      (CNoop, handleNoop srv c), (CQuit, handleQuit srv c)}.
    errorCount (snd kc) = errorCount c \<and> state (snd kc) = state c \<and> username (snd kc) = username c
    \<and> (\<exists>r es. trace (snd kc) = trace c @ EvCall (fst kc) r # es \<and> filter is_call es = [])"
proof -
  have q: "errorCount c' = errorCount c \<and> state c' = state c \<and> username c' = username c
      \<and> (\<exists>r es. trace c' = trace c @ EvCall k r # es \<and> filter is_call es = [])"
    if cl: "called srv k c c'" for k c'
  proof -
    obtain r es where "trace c' = trace c @ EvCall k r # es" "set es \<subseteq> {EvBodyClose}"
      using cl by (auto simp: called_def)
    moreover from this(2) have "filter is_call es = []" by (auto simp: filter_empty_conv)
    ultimately show ?thesis using cl by (auto simp: called_def)
  qed
  show ?thesis
    using q [OF called_stat] q [OF called_list [OF assms(2)]] q [OF called_uidl [OF assms(2)]]
      q [OF called_retr [OF assms(1)]] q [OF called_dele [OF assms(1)]] q [OF called_rset]
      q [OF called_noop] q [OF called_quit] by simp
qed

lemma run_handler_hijacks:
  "state c \<noteq> stateAuthorization \<Longrightarrow> hijacked (snd (run_handler h c)) = hijacked c"
  by (induction h arbitrary: c) (simp_all add: handler_simps Hijack_def)

text \<open>
  C32: what an UnknownCommandHandler can do. Whatever it calls on the connection, the state, the stored user
  name and the input stay as they were, and it takes the connection over only before the login. A command it
  has handled is not counted as an error and ends the connection exactly if it says so; one it has not is
  counted and does not end the dispatch; when it panics the command is answered by nothing and the
  connection is torn down. The trace shows the handler and its overrides of the TLS flag, nothing else.
\<close>

theorem unknown_command_handler:
  assumes "UnknownCommandHandler (opts srv) = Some h" and "dispatchUnknown srv cmd args c = (quit, c')"
    and "r = fst (run_handler (h cmd args (session c)) (elapse srv (CUnknownCommand cmd) c))"
  shows "state c' = state c \<and> username c' = username c \<and> reader c' = reader c
    \<and> (hijacked c' \<longrightarrow> hijacked c \<or> state c = stateAuthorization)
    \<and> (\<exists>es. trace c' = trace c @ es @ [EvCall (CUnknownCommand cmd) (returned r)] \<and> overrides es)
    \<and> (case r of
         Ret (handled, closeConn) \<Rightarrow>
           panicking c' = panicking c \<and> quit = (handled \<and> closeConn)
           \<and> errorCount c' = errorCount c + (if handled then 0 else 1)
       | _ \<Rightarrow> panicking c' \<and> \<not> quit \<and> errorCount c' = errorCount c)"
proof -
  let ?h = "h cmd args (session c)" and ?e = "elapse srv (CUnknownCommand cmd) c"
  obtain d where d: "run_handler ?h ?e = (r, d)" using assms(3) by (metis prod.collapse)
  obtain es where es: "trace d = trace c @ es" "overrides es"
    using run_handler_trace [of ?h ?e] d by auto
  have fr: "state d = state c" "errorCount d = errorCount c" "panicking d = panicking c"
    "username d = username c" "reader d = reader c" "hijacked d \<Longrightarrow> hijacked c \<or> state c = stateAuthorization"
    using run_handler_frame [where h = ?h and c = ?e] run_handler_hijacks [of ?e ?h] d by auto
  show ?thesis
    using assms(1,2) d es fr by (auto simp: dispatchUnknown_def Let_def split: outcome.splits if_splits)
qed

text \<open>
  What an error of the session becomes on the wire. A protocol error, wrapped or not, is sent with
  its code in brackets and closes the connection if it says so; ErrCloseConnection is masked and closes
  it; any other text is forwarded, or masked if the options ask for that, and the connection stays.
\<close>

lemma sessionError_response:
  assumes "sound c" and "\<not> closePending c"
  shows "out (sessionError srv e c) = out c @ status_line ''-ERR''
      (case errors_As e of
         Some p \<Rightarrow> wireMessage (uni srv) p
       | None \<Rightarrow> if errors_Is e ErrCloseConnection \<or> StrictSessionErrors (opts srv) then ''internal error''
                 else err_text (uni srv) e)
    \<and> closePending (sessionError srv e c) =
      (case errors_As e of Some p \<Rightarrow> Error_Close p | None \<Rightarrow> errors_Is e ErrCloseConnection)"
  using assms by (auto simp: sessionError_def Let_def out_err split: option.splits)

section \<open>Around a connection\<close>

text \<open>
  Rejecting a connection. If NewSession returns ErrSilentReject, bare or wrapped, the connection is
  closed without a byte sent; any other error is answered with one -ERR line, its own text if it is a
  protocol error and RejectMessage otherwise, and the connection closed. No session method is called.
\<close>

theorem rejected_connection:
  assumes "newSession (newConn srv () (isTLSConn kind) n) = (Fail e, tls)" and "wbudget n = None" and "wdeadline n = None" and "wslow n = []"
  shows "e_trace (handleConn srv newSession kind n) = [EvNetClose]
    \<and> sent (e_net (handleConn srv newSession kind n)) = sent n @
      (if errors_Is e ErrSilentReject then []
       else status_line ''-ERR''
         (case errors_As e of Some p \<Rightarrow> wireMessage (uni srv) p | None \<Rightarrow> RejectMessage (opts srv)))"
proof -
  let ?c = "newConn srv () (isTLSConn kind) n"
  have c: "sound ?c" "out ?c = sent n"
    using assms(2-4) by (simp_all add: sound_def out_def healthy_def stream_def newWriter_def NewWriter_def)
  show ?thesis
    using assms(1) c
    by (auto simp: handleConn_def ended_of_def out_flush out_err Let_def split: option.split)
qed

text \<open>
  C21: a panic stays in its connection. When a session method panics, Close itself or a handler for unknown
  commands included, ServeConn has closed the session, exactly once, reports the panic to the OnPanic hook
  if there is one, closes the network connection last, even if it was hijacked, and returns.
\<close>

theorem panic_is_contained:
  assumes "newSession (newConn srv () (isTLSConn kind) n) = (Ret s, tls)"
    and "e_panic (handleConn srv newSession kind n)" and "\<not> e_blocked (handleConn srv newSession kind n)"
  shows "\<not> e_panic (ServeConn srv newSession kind n)
    \<and> count_list (e_trace (ServeConn srv newSession kind n)) EvSessionClose = 1
    \<and> last (e_trace (ServeConn srv newSession kind n)) = EvNetClose
    \<and> (OnPanic (opts srv) \<longleftrightarrow> EvOnPanic \<in> set (e_trace (ServeConn srv newSession kind n)))"
proof -
  let ?d = "served srv (newConn srv s tls n)"
  have h: "handleConn srv newSession kind n = ended_of (serve srv (newConn srv s tls n))"
    using assms(1) by (simp add: handleConn_def)
  then have "serve srv (newConn srv s tls n) = close srv ?d"
    using assms(3) by (auto simp: ended_of_def serve_served split: if_splits)
  then have tr: "e_trace (handleConn srv newSession kind n) = trace ?d @ closing srv ?d"
    by (simp add: h ended_of_def)
  have "EvSessionClose \<notin> set (trace ?d)" "EvOnPanic \<notin> set (trace ?d)"
    using served_no_close [of srv s tls n] by (auto simp: list_all_iff)
  then show ?thesis
    using assms(2) tr by (auto simp: ServeConn_def recoverConn_def closing_def count_list_0_iff)
qed

text \<open>The delays of the accept loop, and the connections it starts.\<close>

definition backoff_ok :: "int \<Rightarrow> bool" where
  "backoff_ok b \<longleftrightarrow> b = 0 \<or> 5000000 \<le> b \<and> b \<le> second"

lemma next_backoff_ok: "backoff_ok b \<Longrightarrow> 5000000 \<le> next_backoff b \<and> next_backoff b \<le> second \<and> backoff_ok (next_backoff b)"
  by (auto simp: backoff_ok_def next_backoff_def maxBackoff_def Let_def)

fun accepted :: "'c accept list \<Rightarrow> 'c list" where
  "accepted [] = []"
| "accepted (Accepted c # as) = c # accepted as"
| "accepted (AcceptErr NotYet # as) = accepted as"
| "accepted (AcceptErr sd # as) = []"

fun spawned :: "'c accept_action list \<Rightarrow> 'c list" where
  "spawned [] = []"
| "spawned (Spawn c # as) = c # spawned as"
| "spawned (Sleep d # as) = spawned as"

fun sleep_ok :: "'c accept_action \<Rightarrow> bool" where
  "sleep_ok (Spawn c) = True"
| "sleep_ok (Sleep d) = (5000000 \<le> d \<and> d \<le> second)"

lemma Serve_loop_ok:
  "backoff_ok b \<Longrightarrow> spawned (fst (Serve b as)) = accepted as \<and> list_all sleep_ok (fst (Serve b as))"
proof (induction b as rule: Serve.induct)
  case (2 b c as)
  then show ?case by (auto simp: backoff_ok_def split: prod.split)
next
  case (5 b as)
  then show ?case using next_backoff_ok [of b] by (auto simp: Let_def split: prod.split)
qed (use next_backoff_ok in auto)


section \<open>Where the code and its comments differ\<close>

text \<open>
  C35: a line without its line end is run as a command when the deadline passes: \<^verbatim>\<open>bufio\<close>'s
  \<^verbatim>\<open>ReadLine\<close> returns what is buffered and drops the timeout, so a client that stalls in the
  middle of a line is not timed out but has the part it sent executed.
\<close>

theorem unterminated_line_is_executed:
  assumes "reader c = l" and "l \<noteq> []" and "LF \<notin> set l" and "length l < bufsize"
    and "int (length l) \<le> MaxLineLength (opts srv)"
    and "net (netConn c) = []" and "nextReadDeadline srv c = Some d"
  shows "fst (readLine srv (arm_deadline srv c)) = Some (Inr l)"
proof -
  let ?n = "(netConn c)\<lparr>rdeadline := Some d\<rparr>"
  have "ReadSlice l ?n = (SErr l ErrTimeout, [], ?n\<lparr>now := max (now (netConn c)) d\<rparr>)"
    using assms(3,4,6) by (subst ReadSlice.simps) (simp add: conn_Read_def)
  then show ?thesis
    using assms(1,2,5,7)
    by (simp add: readLine_def arm_deadline_def SetReadDeadline_def readLine_loop.simps ReadLine_def)
qed

lemma TrimSpace_PASS_blank:
  assumes "pw \<noteq> []" and "plain_char (last pw)"
  shows "TrimSpace (''PASS '' @ pw @ '' '') = ''PASS '' @ pw"
proof -
  have P: "plain_char (CHR ''P'')" by (simp add: plain_char_def is_ascii_def ascii_space_def byte_def)
  have sp: "space_len_end ((''PASS '' @ pw) @ '' '') = 1"
    using space_len_end_ascii [of "CHR '' ''" "''PASS '' @ pw"] by (simp add: is_ascii_def ascii_space_def byte_def)
  have "TrimRight ((''PASS '' @ pw) @ '' '') = TrimRight (''PASS '' @ pw)"
    by (subst TrimRight.simps) (simp add: sp [simplified])
  then have "TrimSpace (''PASS '' @ pw @ '' '') = TrimSpace (''PASS '' @ pw)"
    using P by (simp add: TrimSpace_def TrimLeft_plain)
  then show ?thesis using assms P by (simp add: TrimSpace_plain)
qed

lemma process_line_trace:
  "\<exists>es. trace (snd (process_line srv line c)) = trace (snd (dispatched srv line c)) @ es"
  by (simp add: process_line_alt case_prod_beta Let_def)

text \<open>
  C40: a blank at the end of a password is lost. The loop trims the line before it splits it, so a client
  whose password ends in a blank is logged in, or rejected, with the password without it.
\<close>

theorem trailing_blank_of_password_lost:
  assumes "readLine srv (arm_deadline srv c) = (Some (Inr (''PASS '' @ pw @ '' '')), d)"
    and "state d = stateAuthorization" and "authAllowed srv d" and "username d \<noteq> []"
    and "pw \<noteq> []" and "plain_char (last pw)"
  shows "\<exists>r es. trace (snd (serve_step srv c)) = trace d @ EvCall (CLogin (username d) pw) r # es"
proof -
  have "serve_step srv c = process_line srv (''PASS '' @ pw) d"
    using TrimSpace_PASS_blank [OF assms(5,6)] assms(1) by (simp add: serve_step_def)
  then show ?thesis
    using PASS_trace [OF assms(2-5)] process_line_trace [of srv "''PASS '' @ pw" d] by auto
qed

end
