(* ===== verification/Examples.thy ===== *)
theory Examples
  imports RoundTrip Behaviour
begin

text \<open>
  Concrete servers, peers and runs, evaluated by the simplifier: the inputs at which the theorems of
  the development are applied.
\<close>

section \<open>A server and its peers\<close>

definition demo_options :: "'s Options" where
  "demo_options =
     \<lparr>TLSConfig = False, Caps = [], SuppressedCaps = [], IdleTimeout = 0, AuthIdleTimeout = 0,
      AbsoluteSessionTimeout = 0, CommandTimeout = 0, WriteTimeout = - 1, InsecureAuth = True,
      MaxLineLength = 0, MaxErrors = 0, AuthFailuresExemptFromMaxErrors = False, ErrorDelay = 0,
      MaxErrorDelay = 0, Greeting = [], RejectMessage = [], StrictSessionErrors = False,
      UnknownCommandHandler = None, OnCommand = True, OnPanic = True, OnTimeout = True\<rparr>"

definition demo_uni :: unicode where
  "demo_uni = \<lparr>uni_ToUpper = (\<lambda>s. s), uni_EqualFold = (\<lambda>s t. s = t)\<rparr>"

definition demo_srv :: "mem Server" where
  "demo_srv = New demo_options demo_uni mem_session None"

text \<open>The same server with STLS and without logins in the clear.\<close>

definition tls_srv :: "mem Server" where
  "tls_srv = New (demo_options\<lparr>TLSConfig := True, InsecureAuth := False\<rparr>) demo_uni mem_session None"

definition demo_data :: bytes where
  "demo_data = ''A: b'' @ CRLF @ CRLF @ ''.x'' @ CRLF"

definition demo_store :: Store where
  "demo_store = snd (AddMessage id ''u'' ''id1'' demo_data (AddUser ''u'' ''p'' New_Store))"

definition demo_msg :: Message where
  "demo_msg = \<lparr>Ptr = 0, UID = ''id1'', Data = demo_data\<rparr>"

definition demo_session :: "int set \<Rightarrow> session" where
  "demo_session del = \<lparr>s_username = ''u'', msgs = [demo_msg], deleted = del\<rparr>"

definition peer :: "(nat \<times> net_event) list \<Rightarrow> Net" where
  "peer evs = \<lparr>now = 0, rdeadline = None, net = evs, tls_peer = None, sent = [], wbudget = None,
     wdeadline = None, wbreak = (0, []), wslow = []\<rparr>"

text \<open>A line of the client, one nanosecond after the server starts to wait for it.\<close>

definition says :: "bytes \<Rightarrow> nat \<times> net_event" where
  "says l = (1, NData (l @ CRLF))"

definition hangs_up :: "nat \<times> net_event" where
  "hangs_up = (1, NEOF)"

text \<open>A connection between two commands.\<close>

definition at :: "int \<Rightarrow> (nat \<times> net_event) list \<Rightarrow> bytes \<Rightarrow> 's \<Rightarrow> connState \<Rightarrow> bytes \<Rightarrow> bytes \<Rightarrow>
    event list \<Rightarrow> 's Conn" where
  "at t evs out0 s st u raw tr =
     (newConn demo_srv s False ((peer evs)\<lparr>now := t, sent := out0\<rparr>))
       \<lparr>startTime := 0, state := st, username := u, rawArg := raw, trace := tr\<rparr>"

section \<open>Rules for running commands\<close>

named_theorems run

declare peer_def [run] says_def [run] hangs_up_def [run] at_def [run] demo_srv_def [run] tls_srv_def [run] demo_options_def [run]
  demo_uni_def [run] conn_ctx_def [run] cmdDeadline_def [run] elapse_def [run] New_def [run] defaults_def [run] newConn_def [run] newWriter_def [run] NewWriter_def [run] Let_def [run]
  defaultMaxErrorDelay_def [run] defaultWriteTimeout_def [run]

declare ReadSlice.simps [run] conn_Read_def [run] bufsize_def [run] ReadLine_def [run] readLine_loop.simps [run]
  readLine_def [run] bufw_Write_def [run] write_all.simps [run] Flush_def [run] conn_Write_def [run] conn_Send_def [run]
  writeDeadlineConn_Write_def [run]

declare splitCommand_def [run] ToUpper_def [run] is_ascii_def [run] upper_char_def [run] byte_def [run]
  Fields_def [run] fields_from.simps [run] space_len_ascii [run] ascii_space_def [run] plain_char_def [run]
  TrimSpace_plain [run] containsCTL_iff [run] sanitizeResponse_def [run] parseMsgNum_def [run]
  parseInt_def [run]

declare serve_step_def [run] arm_deadline_def [run] nextReadDeadline_def [run] SetReadDeadline_def [run] SetDeadline_def [run]
  process_line_def [run] finish_command_def [run] dispatch_def [run] dispatchAuth_def [run]
  dispatchTransaction_def [run] write_string_def [run] flush_def [run] ok_def [run] err_resp_def [run]
  add_event_def [run] authAllowed_def [run] maxErrorsExceeded_def [run] close_def [run] invoke_def [run]
  invoke_login_def [run] read_error_def [run]

declare handleUser_def [run] handlePass_def [run] after_login_def [run] handleDele_def [run] handleQuit_def [run]

declare mem_session_def [run] mem_Login_def [run] authenticate_def [run] mem_Dele_def [run] mem_Close_def [run]

lemma demo_srv_simps [simp]:
  "meths demo_srv = mem_session" "UnknownCommandHandler (opts demo_srv) = None" "MaxErrors (opts demo_srv) = 10"
  "\<not> AuthFailuresExemptFromMaxErrors (opts demo_srv)" "OnTimeout (opts demo_srv)" "InsecureAuth (opts demo_srv)"
  "MaxLineLength (opts demo_srv) = 1024" "AbsoluteSessionTimeout (opts demo_srv) = 0"
  by (simp_all add: run)

lemma demo_store_users: "users demo_store = [''u'' \<mapsto> \<lparr>password = ''p'', messages = [demo_msg]\<rparr>]"
  "next_ptr demo_store = 1"
  by (simp_all add: demo_store_def AddMessage_def AddUser_def New_Store_def demo_msg_def)

lemma fmt_d_1 [run]: "fmt_d 1 = ''1''"
  by (simp add: fmt_d_def dec.simps digit_char_def char_of_def bit_iff_odd)

section \<open>Commands\<close>

lemma greeting_runs:
  "flush (ok (Greeting (opts demo_srv)) (newConn demo_srv s False (peer evs))) =
     (None, at 0 evs (''+OK POP3 server ready'' @ CRLF) s stateAuthorization [] [] [])"
  by (simp add: run)

lemma USER_runs:
  "serve_step demo_srv (at t (says ''USER u'' # evs) out0 s stateAuthorization u raw tr) =
     (True, at (t + 1) evs (out0 @ ''+OK'' @ CRLF) s stateAuthorization ''u'' ''u''
        (tr @ [EvOnCommand ''USER'' 0 None]))"
  by (simp add: run)

lemma PASS_runs:
  "serve_step demo_srv (at t (says ''PASS p'' # evs) out0 (demo_store, new_session) stateAuthorization ''u'' raw tr) =
     (True, at (t + 1) evs (out0 @ ''+OK Authentication successful'' @ CRLF) (demo_store, demo_session {})
        stateTransaction ''u'' ''p'' (tr @ [EvCall (CLogin ''u'' ''p'') True, EvOnCommand ''PASS'' 0 None]))"
  by (simp add: run demo_store_users demo_session_def new_session_def)

lemma DELE_runs:
  "serve_step demo_srv (at t (says ''DELE 1'' # evs) out0 (st, demo_session {}) stateTransaction u raw tr) =
     (True, at (t + 1) evs (out0 @ ''+OK Message deleted'' @ CRLF) (st, demo_session {1})
        stateTransaction u ''1'' (tr @ [EvCall (CDele 1) True, EvOnCommand ''DELE'' 0 None]))"
  by (simp add: run demo_session_def)

lemma demo_removals: "removals (demo_session {1}) = {0}"
  by (auto simp: removals_def demo_session_def demo_msg_def)

lemma demo_expunge: "mem_Quit (demo_store, demo_session {1}) =
    (Ret 1, (demo_store\<lparr>users := [''u'' \<mapsto> \<lparr>password = ''p'', messages = []\<rparr>]\<rparr>, demo_session {1}))"
  unfolding mem_Quit_def expunge_def Let_def prod.case demo_removals
  by (simp add: demo_store_users demo_msg_def) (simp add: demo_session_def)

lemma QUIT_runs:
  "serve_step demo_srv (at t (says ''QUIT'' # evs) out0 (demo_store, demo_session {1}) stateTransaction u raw tr) =
     (False, at (t + 1) evs (out0 @ ''+OK 1 messages expunged'' @ CRLF)
        (demo_store\<lparr>users := [''u'' \<mapsto> \<lparr>password = ''p'', messages = []\<rparr>]\<rparr>, demo_session {1})
        stateTransaction u [] (tr @ [EvCall CQuit True, EvOnCommand ''QUIT'' 0 None]))"
  by (simp add: run demo_expunge)

lemma EOF_runs:
  "trace (snd (serve_step demo_srv (at t [hangs_up] out0 s st u raw tr))) = tr"
  "fst (serve_step demo_srv (at t [hangs_up] out0 s st u raw tr)) = False"
  "session (snd (serve_step demo_srv (at t [hangs_up] out0 s st u raw tr))) = s"
  by (cases st; simp add: run)+

section \<open>The store\<close>

lemma demo_live: "live (demo_session {}) = [(1, demo_msg)]"
  by (simp add: live_def live_from_Cons demo_session_def)

definition late_store :: Store where
  "late_store = snd (AddMessage id ''u'' ''id2'' ''late'' demo_store)"

lemma late_added: "AddMessage id ''u'' ''id2'' ''late'' demo_store = (None, late_store)"
  by (simp add: late_store_def AddMessage_def demo_store_users Let_def)

lemma late_quit: "mem_Quit (late_store, demo_session {1}) =
    (Ret 1, late_store\<lparr>users := [''u'' \<mapsto> \<lparr>password = ''p'', messages = [\<lparr>Ptr = 1, UID = ''id2'', Data = ''late''\<rparr>]\<rparr>]\<rparr>,
     demo_session {1})"
  unfolding mem_Quit_def expunge_def Let_def prod.case demo_removals
  by (simp add: late_store_def AddMessage_def demo_store_users demo_msg_def) (simp add: demo_session_def)

lemma demo_reach: "mem_reach demo_srv (demo_store, [demo_session {1}])"
proof -
  have "mem_reach demo_srv (AddUser ''u'' ''p'' New_Store, [])"
    by (rule mem_reach.step [OF mem_reach.init mem_step.add_user])
  then have "mem_reach demo_srv (demo_store, [])"
    by (rule mem_reach.step)
      (rule mem_step.add_message [of id "''u''" "''id1''" demo_data _ None],
        simp add: demo_store_def AddMessage_def AddUser_def Let_def)
  then have "mem_reach demo_srv (demo_store, [new_session])"
    using mem_reach.step mem_step.open_session [of demo_srv demo_store "[]"] by force
  then have "mem_reach demo_srv (demo_store, [demo_session {}])"
    by (rule mem_reach.step)
      (use mem_step.call [of 0 "[new_session]" demo_srv "CLogin ''u'' ''p''" True demo_store demo_store "demo_session {}"]
        in \<open>simp add: login_result_def mem_session_def mem_Login_def authenticate_def demo_store_users
          demo_session_def new_session_def\<close>)
  then show ?thesis
    by (rule mem_reach.step)
      (use mem_step.call [of 0 "[demo_session {}]" demo_srv "CDele 1" True demo_store demo_store "demo_session {1}"]
        in \<open>simp add: result_of_def mem_session_def mem_Dele_def demo_session_def\<close>)
qed

section \<open>Client and server\<close>

text \<open>A client at the other end, with a response on its way, and a context with a deadline that is cancelled later.\<close>

definition demo_ctx :: Ctx where
  "demo_ctx = \<lparr>ctx_Deadline = Some 5, ctx_Cancel = Some 9\<rparr>"

definition demo_client :: "bytes \<Rightarrow> Client" where
  "demo_client response =
     newClient \<lparr>co_TLS = False, co_STARTTLS = False, co_MaxLineLength = 0, co_MaxResponseLines = 0\<rparr>
       (peer [(1, NData response)])"

text \<open>A connection in the TRANSACTION state with nothing written.\<close>

definition demo_conn :: "mem Conn" where
  "demo_conn = at 0 [] [] (demo_store, demo_session {}) stateTransaction ''u'' [] []"

lemma demo_client_simps [simp]: "maxLine (demo_client r) = 4096" "maxRespLines (demo_client r) = 100000"
  "guards (demo_client r) = []"
  "ready demo_ctx (demo_client r)"
  by (simp_all add: demo_client_def newClient_def ready_def can_write_def healthy_def NewWriter_def peer_def
      limited_write watched_def demo_ctx_def ctx_Done_def)

text \<open>A connection in the AUTHORIZATION state, and a server whose Login takes the connection over.\<close>

definition greeted_conn :: "mem Conn" where
  "greeted_conn = at 0 [] [] (demo_store, new_session) stateAuthorization [] [] []"

lemma greeted_conn_simps [simp]: "sound greeted_conn" "out greeted_conn = []" "reader greeted_conn = []"
  "session greeted_conn = (demo_store, new_session)" "state greeted_conn = stateAuthorization" "trace greeted_conn = []"
  "\<not> isTLS greeted_conn" "\<not> hijacked greeted_conn" "errorCount greeted_conn = 0" "\<not> panicking greeted_conn" "\<not> blocked greeted_conn"
  "net (netConn greeted_conn) = []"
  by (simp_all add: greeted_conn_def sound_def healthy_def out_def stream_def at_def newConn_def newWriter_def NewWriter_def peer_def)

lemma greeted_conn_sound [simp]: "sound (greeted_conn\<lparr>username := u, reader := r\<rparr>)"
  by (simp add: greeted_conn_def sound_def healthy_def at_def newConn_def newWriter_def NewWriter_def peer_def)

lemma greeted_deadline: "nextReadDeadline demo_srv greeted_conn = Some (600 * second)"
  by (simp add: greeted_conn_def run)

definition proxy_srv :: "mem Server" where
  "proxy_srv = New demo_options demo_uni
     (mem_session\<lparr>s_Login := \<lambda>u p s. LHijack (\<lambda>h. (Ret (), (demo_store, new_session)))\<rparr>) None"

lemma demo_awaits: "awaits demo_ctx (demo_client r) [] r"
  by (auto simp: awaits_def expects_def unfired_def watched_def ctx_Done_def demo_ctx_def pending_def prompt_def
      payload_def limited_read demo_client_def newClient_def peer_def intro!: exI [of _ "[(1, NData r)]"])

lemma demo_conn_simps [simp]: "sound demo_conn" "out demo_conn = []" "session demo_conn = (demo_store, demo_session {})"
  "state demo_conn = stateTransaction" "\<not> closePending demo_conn" "errorCount demo_conn = 0"
  by (simp_all add: demo_conn_def sound_def healthy_def out_def stream_def at_def newConn_def newWriter_def NewWriter_def peer_def)

text \<open>A message of three full buffers, and a client that takes 5 ns for each write of the server.\<close>

definition long_body :: body where
  "long_body = \<lparr>body_chunks = replicate 3 (replicate bufsize DOT), body_ends = BodyEOF, body_octets = None\<rparr>"

definition long_srv :: "mem Server" where
  "long_srv = New (demo_options\<lparr>AbsoluteSessionTimeout := 7, WriteTimeout := 6\<rparr>) demo_uni
     (mem_session\<lparr>s_Retr := \<lambda>msg s. (Ret (Some long_body), s)\<rparr>) None"

definition slow_conn :: "mem Conn" where
  "slow_conn = (newConn long_srv (demo_store, demo_session {}) False ((peer [])\<lparr>wslow := [5, 5, 5]\<rparr>))
     \<lparr>state := stateTransaction\<rparr>"

lemma demo_wire: "wire_body demo_data = ''A: b'' @ CRLF @ CRLF @ ''..x'' @ CRLF @ ''.'' @ CRLF"
  by code_simp

lemma demo_lines: "lines_of (stuffed_body demo_data) = [''A: b'' @ CRLF, CRLF, ''..x'' @ CRLF]"
  by code_simp

lemma demo_delivered: "delivered demo_data = demo_data"
  by code_simp

lemma demo_at: "msgAt 1 (demo_session {}) = Inr demo_msg"
  by (simp add: msgAt_def demo_session_def)

lemma parse_1: "parseMsgNum [''1''] = Inr 1"
  by (simp add: run)

lemma demo_stat: "s_Stat mem_session (demo_store, demo_session {}) = (Ret (1, 12), (demo_store, demo_session {}))"
  by (simp add: mem_session_def mem_Stat_def demo_session_def demo_msg_def demo_data_def wrap64_def)

lemma demo_list: "s_List mem_session 0 (demo_store, demo_session {}) =
    (Ret [\<lparr>Info_Num = 1, Info_Size = 12\<rparr>], (demo_store, demo_session {}))"
  by (simp add: mem_session_def mem_List_def info_of_def demo_session_def demo_msg_def demo_data_def)

lemma demo_uidl: "s_Uidl mem_session 0 (demo_store, demo_session {}) =
    (Ret [\<lparr>Uidl_Num = 1, Uidl_UniqueID = ''id1''\<rparr>], (demo_store, demo_session {}))"
  by (simp add: mem_session_def mem_Uidl_def uidl_of_def demo_session_def demo_msg_def)

lemma plain_id1: "plain_word ''id1''"
  by (simp add: plain_word_def run)

lemma fmt_d_12: "fmt_d 12 = ''12''"
  by (simp add: fmt_d_def dec.simps digit_char_def char_of_def bit_iff_odd)

lemma demo_stat_out: "out (handleStat demo_srv demo_conn) = ''+OK 1 12'' @ CRLF"
  using demo_stat by (simp add: handleStat_def invoke_def out_write_string fmt_d_1 fmt_d_12)

lemma demo_list_out: "out (handleList demo_srv [] demo_conn) =
    ''+OK 1 messages'' @ CRLF @ ''1 12'' @ CRLF @ ''.'' @ CRLF"
  using handleList_out [of demo_conn demo_srv] demo_list
  by (simp add: listing_def info_line_def fmt_d_1 fmt_d_12)

lemma demo_uidl_out: "out (handleUidl demo_srv [] demo_conn) =
    ''+OK 1 messages'' @ CRLF @ ''1 id1'' @ CRLF @ ''.'' @ CRLF"
  using handleUidl_out [of demo_conn demo_srv] demo_uidl
  by (simp add: listing_def uidl_line_def fmt_d_1 sanitizeResponse_def)

section \<open>The TLS upgrade\<close>

definition demo_tls :: "(nat \<times> net_event) list" where
  "demo_tls = [says ''USER u'', says ''PASS p'', hangs_up]"

text \<open>The peer before the upgrade, and a connection that is over TLS.\<close>

definition before_tls :: Net where
  "before_tls = (peer [says ''STLS''])\<lparr>tls_peer := Some (1, demo_tls)\<rparr>"

definition over_tls :: "'s Conn \<Rightarrow> 's Conn" where
  "over_tls c = c\<lparr>isTLS := True\<rparr>"

definition tls_conn :: "mem \<Rightarrow> mem Conn" where
  "tls_conn s = newConn tls_srv s False (before_tls\<lparr>sent := ''+OK POP3 server ready'' @ CRLF\<rparr>)"

lemma greeting_tls: "flush (ok (Greeting (opts tls_srv)) (newConn tls_srv s False before_tls)) = (None, tls_conn s)"
  by (simp add: run before_tls_def tls_conn_def)

lemma STLS_runs:
  "serve_step tls_srv (tls_conn s) =
     (True, over_tls (at 2 demo_tls (''+OK POP3 server ready'' @ CRLF @ ''+OK Begin TLS negotiation'' @ CRLF)
        s stateAuthorization [] [] [EvTLS True, EvOnCommand ''STLS'' 1 None]))"
  by (simp add: run tls_conn_def before_tls_def over_tls_def handleSTLS_def HandshakeContext_def)

lemma USER_tls:
  "serve_step tls_srv (over_tls (at t (says ''USER u'' # evs) out0 s stateAuthorization u raw tr)) =
     (True, over_tls (at (t + 1) evs (out0 @ ''+OK'' @ CRLF) s stateAuthorization ''u'' ''u''
        (tr @ [EvOnCommand ''USER'' 0 None])))"
  by (simp add: run over_tls_def)

lemma PASS_tls:
  "serve_step tls_srv (over_tls (at t (says ''PASS p'' # evs) out0 (demo_store, new_session) stateAuthorization ''u'' raw tr)) =
     (True, over_tls (at (t + 1) evs (out0 @ ''+OK Authentication successful'' @ CRLF) (demo_store, demo_session {})
        stateTransaction ''u'' ''p'' (tr @ [EvCall (CLogin ''u'' ''p'') True, EvOnCommand ''PASS'' 0 None])))"
  by (simp add: run over_tls_def demo_store_users demo_session_def new_session_def)

lemma EOF_tls:
  "serve_step tls_srv (over_tls (at t [hangs_up] out0 s stateTransaction u raw tr)) =
     (False, read_error tls_srv ErrEOF (SetReadDeadline (Some (t + 600 * second))
        (over_tls (at (t + 1) [(0, NEOF)] out0 s stateTransaction u raw tr))))"
  by (simp add: run over_tls_def)

lemma tls_run:
  "trace (serve tls_srv (newConn tls_srv (demo_store, new_session) False before_tls)) =
     [EvTLS True, EvOnCommand ''STLS'' 1 None, EvOnCommand ''USER'' 0 None, EvCall (CLogin ''u'' ''p'') True,
      EvOnCommand ''PASS'' 0 None, EvSessionClose, EvNetClose]"
  unfolding serve_def greeting_tls
  by (simp add: serve_loop.simps STLS_runs demo_tls_def USER_tls PASS_tls EOF_tls) (simp add: run over_tls_def)

lemma tls_srv_simps [simp]: "\<not> InsecureAuth (opts tls_srv)" "TLSConfig (opts tls_srv)"
  by (simp_all add: run)

section \<open>Runs\<close>

lemma not_blocked_demo: "\<not> blocked (serve demo_srv (newConn demo_srv s tls n))"
  by (rule not_blocked) (simp add: run)

lemma deleting_run:
  "trace (serve demo_srv (newConn demo_srv (demo_store, new_session) False
       (peer [says ''USER u'', says ''PASS p'', says ''DELE 1'', says ''QUIT'']))) =
     [EvOnCommand ''USER'' 0 None, EvCall (CLogin ''u'' ''p'') True, EvOnCommand ''PASS'' 0 None,
      EvCall (CDele 1) True, EvOnCommand ''DELE'' 0 None, EvCall CQuit True, EvOnCommand ''QUIT'' 0 None,
      EvSessionClose, EvNetClose]"
  unfolding serve_def greeting_runs
  by (simp add: serve_loop.simps USER_runs PASS_runs DELE_runs QUIT_runs)
   (simp add: run)

lemma dropped_run:
  "trace (serve demo_srv (newConn demo_srv (demo_store, new_session) False
       (peer [says ''USER u'', says ''PASS p'', says ''DELE 1'', hangs_up]))) =
     [EvOnCommand ''USER'' 0 None, EvCall (CLogin ''u'' ''p'') True, EvOnCommand ''PASS'' 0 None,
      EvCall (CDele 1) True, EvOnCommand ''DELE'' 0 None, EvSessionClose, EvNetClose]"
  unfolding serve_def greeting_runs
  by (simp add: serve_loop.simps USER_runs PASS_runs DELE_runs QUIT_runs)
   (simp add: run)

text \<open>A session whose calls take 9 ns and stop when their context is done, and a server on it that is closed after 2 ns.\<close>

definition busy_session :: "mem Session" where
  "busy_session = mem_session\<lparr>s_Takes := \<lambda>_ left _. (case left of None \<Rightarrow> 9 | Some l \<Rightarrow> nat (min 9 l))\<rparr>"

lemma busy_honours [simp]: "honours busy_session"
  by (simp add: honours_def busy_session_def)

definition busy_srv :: "mem Server" where
  "busy_srv = New (demo_options\<lparr>CommandTimeout := 4\<rparr>) demo_uni busy_session (Some 2)"

text \<open>A handler that asks for the TLS flag, answers, overrides it and ends the connection.\<close>

definition demo_handler :: "bytes \<Rightarrow> bytes list \<Rightarrow> mem \<Rightarrow> mem handler" where
  "demo_handler cmd args s =
     HIsTLS (\<lambda>tls. if tls then HOK ''already'' (HReturn True False s)
                  else HErr ''plain'' (HSetTLS True (HReturn True True s)))"

definition handler_srv :: "mem Server" where
  "handler_srv = New (demo_options\<lparr>UnknownCommandHandler := Some demo_handler\<rparr>) demo_uni mem_session None"

lemma handler_runs:
  "dispatchUnknown handler_srv ''XTLS'' [] greeted_conn = (True, snd (dispatchUnknown handler_srv ''XTLS'' [] greeted_conn))"
  "fst (run_handler (demo_handler ''XTLS'' [] s) (elapse handler_srv k greeted_conn)) = Ret (True, True)"
  by (simp_all add: dispatchUnknown_def handler_srv_def run IsTLS_def demo_handler_def greeted_conn_def)

text \<open>A session whose EnableUTF8 panics.\<close>

definition panic_srv :: "mem Server" where
  "panic_srv = New demo_options demo_uni (mem_session\<lparr>s_UTF8 := Some \<lparr>EnableUTF8 = (\<lambda>s. (Panic, s))\<rparr>\<rparr>) None"

lemma greeting_panic:
  "flush (ok (Greeting (opts panic_srv)) (newConn panic_srv s False (peer evs))) =
     (None, at 0 evs (''+OK POP3 server ready'' @ CRLF) s stateAuthorization [] [] [])"
  by (simp add: run panic_srv_def)

lemma UTF8_panics:
  "serve_step panic_srv (at 0 [says ''UTF8''] out0 s stateAuthorization u raw tr) =
     (False, panic (at 1 [] out0 s stateAuthorization u [] (tr @ [EvCall CEnableUTF8 False])))"
  by (simp add: run panic_srv_def handleUTF8_def panic_def)

lemma panic_run:
  "panicking (serve panic_srv (newConn panic_srv s False (peer [says ''UTF8''])))"
  "\<not> blocked (serve panic_srv (newConn panic_srv s False (peer [says ''UTF8''])))"
  unfolding serve_def greeting_panic
  by (simp_all add: serve_loop.simps UTF8_panics) (simp_all add: run panic_srv_def panic_def)

lemma PASS_blank_read:
  "readLine demo_srv (arm_deadline demo_srv (at 0 [says ''PASS p ''] [] s stateAuthorization ''u'' [] [])) =
     (Some (Inr (''PASS '' @ ''p'' @ '' '')), SetReadDeadline (Some (600 * second)) (at 1 [] [] s stateAuthorization ''u'' [] []))"
  by (simp add: run)

end
