(* ===== verification/Lifecycle.thy ===== *)
theory Lifecycle
  imports Behaviour
begin

text \<open>
  The life of a \<^verbatim>\<open>Server\<close> in \<^verbatim>\<open>pop3server/server.go\<close>: the goroutine that runs
  \<^verbatim>\<open>Serve\<close>, the one that calls \<^verbatim>\<open>Close\<close>, and one per connection. They share the
  context, the \<^verbatim>\<open>listener\<close> field and the \<^verbatim>\<open>WaitGroup\<close>, and their statements
  interleave; a step of \<open>life_step\<close> is one statement that touches what they share. What the
  loop does with one \<^verbatim>\<open>Accept\<close> after another is \<open>Serve\<close>, what a handler does is
  \<open>ServeConn\<close>.
\<close>

section \<open>The goroutines\<close>

text \<open>Where \<^verbatim>\<open>Serve\<close> is: before its first line, in \<^verbatim>\<open>Accept\<close>, with a connection it has
  not yet counted, in the back-off, returned. And where \<^verbatim>\<open>Close\<close> is.\<close>

datatype serve_pc = ServeIdle | Accepting | GotConn nat | BackingOff | ServeReturned

datatype close_pc = CloseIdle | Cancelled | ListenerClosed | CloseReturned

text \<open>
  \<open>has_listener\<close>: the field is not nil. \<open>ln_open\<close>: the listener given to \<^verbatim>\<open>Serve\<close>
  accepts connections. \<open>running\<close>: the connections whose handlers have not returned.
\<close>

record Life =
  ctx_done :: bool
  has_listener :: bool
  ln_open :: bool
  wg :: nat
  running :: "nat list"
  at_serve :: serve_pc
  at_close :: close_pc

definition Life_New :: Life where
  "Life_New = \<lparr>ctx_done = False, has_listener = False, ln_open = True, wg = 0, running = [],
     at_serve = ServeIdle, at_close = CloseIdle\<rparr>"

inductive life_step :: "Life \<Rightarrow> Life \<Rightarrow> bool" where
  serve_starts: "at_serve s = ServeIdle \<Longrightarrow> life_step s (s\<lparr>has_listener := True, at_serve := Accepting\<rparr>)"
| accept_conn: "at_serve s = Accepting \<Longrightarrow> ln_open s \<Longrightarrow> life_step s (s\<lparr>at_serve := GotConn c\<rparr>)"
| accept_fails: "at_serve s = Accepting \<Longrightarrow>
    life_step s (s\<lparr>at_serve := (if ctx_done s then ServeReturned else BackingOff)\<rparr>)"
| backoff_over: "at_serve s = BackingOff \<Longrightarrow> life_step s (s\<lparr>at_serve := Accepting\<rparr>)"
| backoff_cut: "at_serve s = BackingOff \<Longrightarrow> ctx_done s \<Longrightarrow> life_step s (s\<lparr>at_serve := ServeReturned\<rparr>)"
| spawn: "at_serve s = GotConn c \<Longrightarrow>
    life_step s (s\<lparr>wg := wg s + 1, running := running s @ [c], at_serve := Accepting\<rparr>)"
| handler_done: "c \<in> set (running s) \<Longrightarrow> life_step s (s\<lparr>wg := wg s - 1, running := remove1 c (running s)\<rparr>)"
| close_cancels: "at_close s = CloseIdle \<Longrightarrow> life_step s (s\<lparr>ctx_done := True, at_close := Cancelled\<rparr>)"
| close_listener: "at_close s = Cancelled \<Longrightarrow>
    life_step s (s\<lparr>ln_open := (if has_listener s then False else ln_open s), at_close := ListenerClosed\<rparr>)"
| close_waits: "at_close s = ListenerClosed \<Longrightarrow> wg s = 0 \<Longrightarrow> life_step s (s\<lparr>at_close := CloseReturned\<rparr>)"

inductive life_reach :: "Life \<Rightarrow> bool" where
  life_init: "life_reach Life_New"
| life_next: "life_reach s \<Longrightarrow> life_step s s' \<Longrightarrow> life_reach s'"

inductive_cases life_stepE: "life_step s s'"

section \<open>Invariants\<close>

text \<open>The connection \<^verbatim>\<open>Serve\<close> holds between \<^verbatim>\<open>Accept\<close> and \<^verbatim>\<open>wg.Add\<close>.\<close>

fun uncounted :: "serve_pc \<Rightarrow> nat" where
  "uncounted (GotConn c) = 1"
| "uncounted _ = 0"

text \<open>
  The WaitGroup counts the running handlers; the context is done as soon as Close has started; once the
  listener is closed only the connection in hand can still get a handler.
\<close>

definition life_inv :: "Life \<Rightarrow> bool" where
  "life_inv s \<longleftrightarrow> wg s = length (running s) \<and> (at_close s \<noteq> CloseIdle \<longrightarrow> ctx_done s)
     \<and> (\<not> ln_open s \<longrightarrow> ctx_done s)
     \<and> (at_close s = CloseReturned \<and> \<not> ln_open s \<longrightarrow> length (running s) + uncounted (at_serve s) \<le> 1)"

lemma life_inv_step: "life_step s s' \<Longrightarrow> life_inv s \<Longrightarrow> life_inv s'"
proof (induction rule: life_step.induct)
  case (spawn s c)
  then show ?case by (auto simp: life_inv_def)
next
  case (handler_done c s)
  then show ?case by (auto simp: life_inv_def length_remove1)
next
  case (close_waits s)
  then show ?case by (cases "at_serve s") (auto simp: life_inv_def)
qed (auto simp: life_inv_def split: if_splits)

lemma life_reach_inv: "life_reach s \<Longrightarrow> life_inv s"
  by (induction rule: life_reach.induct) (simp_all add: life_inv_step, simp add: life_inv_def Life_New_def)

section \<open>Shutdown\<close>


text \<open>
  What the cancelled context interrupts in a connection: neither a back-off nor a TLS handshake lasts
  beyond the moment the server is closed, nor does a call on a session that heeds its context. A read of a
  command does (\<open>silent_client_times_out\<close> holds whatever \<open>closes\<close> is), so Close waits for it.
\<close>

lemma close_ends_backoff:
  assumes "closes srv = Some t"
  shows "now (netConn (applyErrorDelay srv c)) \<le> max (now (netConn c)) t"
  using assms by (auto simp: applyErrorDelay_def conn_ctx_def Let_def earlier_Some split: option.split)

lemma close_ends_handshake:
  assumes "closes srv = Some t" and "HandshakeContext (cmdDeadline srv c) n = (b, n')"
  shows "now n' \<le> max (now n) t"
proof -
  obtain e where "earlier (rdeadline n) (cmdDeadline srv c) = Some e" "e \<le> t"
    using assms(1) by (cases "rdeadline n") (auto simp: cmdDeadline_def conn_ctx_def earlier_Some min_def split: option.split)
  then show ?thesis
    using assms(2) by (auto simp: HandshakeContext_def Let_def split: option.splits prod.splits if_splits)
qed

lemma elapse_context:
  assumes "honours (meths srv)" and "cmdCtx c = Some d"
  shows "now (netConn (elapse srv k c)) \<le> max (now (netConn c)) d"
proof -
  have "int (s_Takes (meths srv) k (Some (d - now (netConn c))) (session c)) \<le> max 0 (d - now (netConn c))"
    using assms(1) by (simp add: honours_def)
  with assms(2) show ?thesis by (simp add: elapse_def Let_def)
qed

lemma cmdDeadline_bounds:
  "CommandTimeout (opts srv) > 0 \<Longrightarrow> \<exists>d. cmdDeadline srv c = Some d \<and> d \<le> now (netConn c) + CommandTimeout (opts srv)"
  "closes srv = Some t \<Longrightarrow> \<exists>d. cmdDeadline srv c = Some d \<and> d \<le> t"
  by (auto simp: cmdDeadline_def conn_ctx_def earlier_Some split: option.split)


text \<open>A run of the steps, for the states below.\<close>

lemma life_to:
  assumes "life_reach s" and "life_step s s'" and "s' = t"
  shows "life_reach t"
  using assms life_next by blast

definition late_life :: Life where
  "late_life = \<lparr>ctx_done = True, has_listener = True, ln_open = False, wg = 1, running = [7],
     at_serve = Accepting, at_close = CloseReturned\<rparr>"

lemma late_life_reach: "life_reach late_life"
proof -
  let ?s = "\<lambda>d o1 w rs v k. \<lparr>ctx_done = d, has_listener = True, ln_open = o1, wg = w, running = rs,
    at_serve = v, at_close = k\<rparr>"
  have "life_reach (?s False True 0 [] Accepting CloseIdle)"
    by (rule life_to [OF life_init serve_starts]) (simp_all add: Life_New_def)
  then have "life_reach (?s False True 0 [] (GotConn 7) CloseIdle)"
    by (rule life_to [OF _ accept_conn]) simp_all
  then have "life_reach (?s True True 0 [] (GotConn 7) Cancelled)"
    by (rule life_to [OF _ close_cancels]) simp_all
  then have "life_reach (?s True False 0 [] (GotConn 7) ListenerClosed)"
    by (rule life_to [OF _ close_listener]) simp_all
  then have "life_reach (?s True False 0 [] (GotConn 7) CloseReturned)"
    by (rule life_to [OF _ close_waits]) simp_all
  then show ?thesis
    unfolding late_life_def by (rule life_to [OF _ spawn]) simp_all
qed

lemma close_first_reach:
  "life_reach \<lparr>ctx_done = True, has_listener = True, ln_open = True, wg = length cs, running = cs,
     at_serve = Accepting, at_close = CloseReturned\<rparr>"
proof (induction cs rule: rev_induct)
  case Nil
  let ?s = "\<lambda>k. \<lparr>ctx_done = True, has_listener = False, ln_open = True, wg = 0, running = [],
    at_serve = ServeIdle, at_close = k\<rparr>"
  have "life_reach (?s Cancelled)"
    by (rule life_to [OF life_init close_cancels]) (simp_all add: Life_New_def)
  then have "life_reach (?s ListenerClosed)"
    by (rule life_to [OF _ close_listener]) simp_all
  then have "life_reach (?s CloseReturned)"
    by (rule life_to [OF _ close_waits]) simp_all
  then show ?case by (rule life_to [OF _ serve_starts]) simp_all
next
  case (snoc c cs)
  then have "life_reach \<lparr>ctx_done = True, has_listener = True, ln_open = True, wg = length cs, running = cs,
     at_serve = GotConn c, at_close = CloseReturned\<rparr>"
    by (rule life_to [OF _ accept_conn]) simp_all
  then show ?case by (rule life_to [OF _ spawn]) simp_all
qed

text \<open>
  C36: Close does not always wait for all handlers. A connection that Serve has accepted is counted only
  afterwards, so the wait can end in between and its handler start after Close has returned. And a Close that
  runs before Serve has stored its listener closes nothing: Serve, which looks at the context only after a
  failed Accept, goes on to accept any number of connections.
\<close>

theorem close_leaves_handlers:
  "(\<exists>s. life_reach s \<and> at_close s = CloseReturned \<and> \<not> ln_open s \<and> running s = [7])
   \<and> (\<exists>s. life_reach s \<and> at_close s = CloseReturned \<and> at_serve s = Accepting \<and> running s = cs)"
  using late_life_reach close_first_reach [of cs] by (fastforce simp: late_life_def)

section \<open>Listening\<close>

text \<open>
  \<^verbatim>\<open>ListenAndServe\<close> and \<^verbatim>\<open>ListenAndServeTLS\<close>, over what \<^verbatim>\<open>net.Listen\<close> and
  \<^verbatim>\<open>tls.Listen\<close> return and what \<^verbatim>\<open>Serve\<close> returns on the listener.
\<close>

definition ListenAndServe :: "(bytes \<Rightarrow> err + 'l) \<Rightarrow> ('l \<Rightarrow> err option) \<Rightarrow> bytes \<Rightarrow> err option" where
  "ListenAndServe net_Listen serve_on addr =
     (case net_Listen addr of Inl e \<Rightarrow> Some e | Inr ln \<Rightarrow> serve_on ln)"

definition ListenAndServeTLS ::
    "'s Server \<Rightarrow> (bytes \<Rightarrow> err + 'l) \<Rightarrow> ('l \<Rightarrow> err option) \<Rightarrow> bytes \<Rightarrow> err option" where
  "ListenAndServeTLS srv tls_Listen serve_on addr =
     (if \<not> TLSConfig (opts srv) then Some (ErrPlain ''use of closed network connection'')
      else case tls_Listen addr of Inl e \<Rightarrow> Some e | Inr ln \<Rightarrow> serve_on ln)"

end
