(* ===== verification/Deadlines.thy ===== *)
theory Deadlines
  imports RoundTrip
begin

text \<open>
  When a client call ends. \<open>in_time\<close> is the contract of an operation: started in a state of a given
  kind it does not wait for ever, the clock is not past a given limit when it returns, and after a
  success the state is of that kind again. It is closed under the sequencing all operations are built
  with. The locale \<open>time_limit\<close> states it for the two operations that touch the connection and derives
  it for the commands; it is interpreted for a context that is not yet done, for one with a deadline,
  and for one that is already cancelled.
\<close>

section \<open>The contract\<close>

definition in_time :: "(Client \<Rightarrow> bool) \<Rightarrow> int \<Rightarrow> 'a client_op \<Rightarrow> bool" where
  "in_time I d op \<longleftrightarrow>
     (\<forall>c. I c \<longrightarrow> fst (op c) \<noteq> Blocks \<and> now (c_conn (snd (op c))) \<le> max (now (c_conn c)) d
        \<and> (is_done (fst (op c)) \<longrightarrow> I (snd (op c))))"

lemma in_timeI:
  assumes "\<And>c r c'. I c \<Longrightarrow> op c = (r, c') \<Longrightarrow>
    r \<noteq> Blocks \<and> now (c_conn c') \<le> max (now (c_conn c)) d \<and> (is_done r \<longrightarrow> I c')"
  shows "in_time I d op"
  unfolding in_time_def using assms by (metis prod.collapse)

lemma in_timeD:
  assumes "in_time I d op" "I c" "op c = (r, c')"
  shows "r \<noteq> Blocks" "now (c_conn c') \<le> max (now (c_conn c)) d" "is_done r \<Longrightarrow> I c'"
proof -
  have "fst (op c) \<noteq> Blocks \<and> now (c_conn (snd (op c))) \<le> max (now (c_conn c)) d
      \<and> (is_done (fst (op c)) \<longrightarrow> I (snd (op c)))"
    using assms(1,2) unfolding in_time_def by blast
  then show "r \<noteq> Blocks" "now (c_conn c') \<le> max (now (c_conn c)) d" "is_done r \<Longrightarrow> I c'"
    by (simp_all add: assms(3))
qed

named_theorems in_time_intros \<open>how the contract passes through the constructs of the operations\<close>

lemma in_time_and_then [in_time_intros]:
  assumes "in_time I d m" and "\<And>a. in_time I d (f a)"
  shows "in_time I d (and_then m f)"
proof (rule in_timeI)
  fix c r c' assume c: "I c" and op: "and_then m f c = (r, c')"
  obtain q c1 where m: "m c = (q, c1)" by fastforce
  note t = in_timeD [OF assms(1) c m]
  show "r \<noteq> Blocks \<and> now (c_conn c') \<le> max (now (c_conn c)) d \<and> (is_done r \<longrightarrow> I c')"
  proof (cases q)
    case (Done a)
    then have "f a c1 = (r, c')" using op m by (simp add: and_then_def)
    from in_timeD [OF assms(2) _ this] t Done show ?thesis by auto
  qed (use t m op in \<open>auto simp: and_then_def\<close>)
qed

lemma in_time_return [in_time_intros]: "in_time I d (return a)"
  by (simp add: in_time_def return_def)

lemma in_time_fail [in_time_intros]: "in_time I d (fail e)"
  by (simp add: in_time_def fail_def)

lemma in_time_lift [in_time_intros]: "in_time I d (lift_result r)"
  by (cases r) (simp_all add: lift_result_def in_time_intros)

lemma in_time_if [in_time_intros]: "in_time I d f \<Longrightarrow> in_time I d g \<Longrightarrow> in_time I d (if b then f else g)"
  by simp

lemma in_time_case_fields [in_time_intros]:
  assumes "in_time I d g" and "\<And>x y z zs. in_time I d (f x y z zs)"
  shows "in_time I d (case fs of x # y # z # zs \<Rightarrow> f x y z zs | _ \<Rightarrow> g)"
  using assms by (auto split: list.split)

lemma in_time_case_sum [in_time_intros]:
  "(\<And>a. in_time I d (f a)) \<Longrightarrow> (\<And>b. in_time I d (g b)) \<Longrightarrow> in_time I d (case_sum f g x)"
  by (cases x) simp_all

lemma in_time_case_option [in_time_intros]:
  "in_time I d g \<Longrightarrow> (\<And>b. in_time I d (f b)) \<Longrightarrow> in_time I d (case_option g f x)"
  by (cases x) simp_all

lemma in_time_case_prod [in_time_intros]: "(\<And>a b. in_time I d (f a b)) \<Longrightarrow> in_time I d (case_prod f x)"
  by (cases x) simp

section \<open>The commands\<close>

text \<open>Reading a body to its end, and dropping what is left of it, as operations of the client.\<close>

definition read_body :: "nat \<Rightarrow> bodyReader \<Rightarrow> bytes client_op" where
  "read_body k b c = (let (r, b', c') = body_ReadAll k [] b c in (r, c'))"

definition close_body :: "bodyReader \<Rightarrow> unit client_op" where
  "close_body b c = (let (r, b', c') = body_Close b c in (r, c'))"

locale time_limit =
  fixes ctx :: Ctx and inside outside :: "Client \<Rightarrow> bool" and limit :: int
  assumes readLine: "in_time inside limit (client_readLine ctx)"
    and writeCmd: "in_time inside limit (writeCmd ctx line)"
    and enter: "outside c \<Longrightarrow> inside (arm ctx c)"
    and leave: "inside c \<Longrightarrow> outside c" "inside c \<Longrightarrow> outside (stop ctx c)"
    and greet: "outside c \<Longrightarrow> outside (c\<lparr>greeting := g\<rparr>)"
begin

lemma readMultiLine: "in_time inside limit (readMultiLine ctx)"
proof (rule in_timeI)
  have loop: "readMultiLine_loop ctx lines c = (r, c') \<Longrightarrow> inside c \<Longrightarrow>
      r \<noteq> Blocks \<and> now (c_conn c') \<le> max (now (c_conn c)) limit \<and> (is_done r \<longrightarrow> inside c')" for lines c r c'
  proof (induction "client_size c" arbitrary: lines c rule: less_induct)
    case less
    obtain q c1 where rl: "client_readLine ctx c = (q, c1)" by fastforce
    note t = in_timeD [OF readLine less.prems(2) rl]
    show ?case
    proof (cases q)
      case (Done line)
      then have c1: "inside c1" "client_size c1 < client_size c" using t(3) rl client_readLine_size by auto
      show ?thesis
        using less.hyps [OF c1(2) _ c1(1), of "lines @ [unstuffLine line]"] less.prems rl Done t c1
        by (auto simp: readMultiLine_loop.simps [of ctx lines c] Let_def split: if_splits)
    qed (use t less.prems rl in \<open>auto simp: readMultiLine_loop.simps [of ctx lines c]\<close>)
  qed
  then show "inside c \<Longrightarrow> readMultiLine ctx c = (r, c') \<Longrightarrow>
      r \<noteq> Blocks \<and> now (c_conn c') \<le> max (now (c_conn c)) limit \<and> (is_done r \<longrightarrow> inside c')" for c r c'
    by (simp add: readMultiLine_def)
qed

lemma exchange: "in_time inside limit (exchange ctx line)"
  unfolding exchange_def by (intro in_time_intros writeCmd readLine)

lemma arm_now: "now (c_conn (arm ctx c)) = now (c_conn c)"
  by (simp add: arm_def split: option.split)

lemma guarded:
  assumes "in_time inside limit op"
  shows "in_time outside limit (guard ctx op)"
proof (rule in_timeI)
  fix c r c' assume c: "outside c" and g: "guard ctx op c = (r, c')"
  obtain c1 where op: "op (arm ctx c) = (r, c1)" "c' = stop ctx c1"
    using g by (auto simp: guard_def split: prod.splits)
  from in_timeD [OF assms enter [OF c] op(1)] op(2) leave(2)
  show "r \<noteq> Blocks \<and> now (c_conn c') \<le> max (now (c_conn c)) limit \<and> (is_done r \<longrightarrow> outside c')"
    by (simp add: arm_now)
qed

lemma Cmd: "in_time outside limit (Cmd ctx line)"
  unfolding Cmd_def by (rule guarded [OF exchange])

lemma cmdExpectOK: "in_time outside limit (cmdExpectOK ctx line)"
  unfolding cmdExpectOK_def by (intro in_time_intros Cmd)

lemma guarded_exchange:
  "(\<And>s. in_time inside limit (f s)) \<Longrightarrow> in_time outside limit (guard ctx (and_then (exchange ctx line) f))"
  by (intro guarded in_time_intros exchange)

lemma commands:
  "in_time outside limit (Capa ctx)" "in_time outside limit (XClient ctx params)"
  "in_time outside limit (AuthPlain ctx i u p)" "in_time outside limit (User ctx u p)"
  "in_time outside limit (client_Quit ctx)" "in_time outside limit (client_Stat ctx)"
  "in_time outside limit (client_List fmt_q ctx)" "in_time outside limit (ListOne fmt_q ctx msg)"
  "in_time outside limit (client_Uidl fmt_q ctx)" "in_time outside limit (UidlOne fmt_q ctx msg)"
  "in_time outside limit (client_Dele ctx msg)" "in_time outside limit (client_Rset ctx)"
  "in_time outside limit (client_Noop ctx)"
  unfolding Capa_def XClient_def AuthPlain_def User_def client_Quit_def client_Stat_def client_List_def
    ListOne_def client_Uidl_def UidlOne_def client_Dele_def client_Rset_def client_Noop_def
  by (intro in_time_intros guarded_exchange readMultiLine Cmd cmdExpectOK)+

text \<open>A body is read under the guard its retrieval has armed, and the reader's end releases it.\<close>

lemma finish_outside: "inside c \<Longrightarrow> b_ctx b = ctx \<Longrightarrow> outside (snd (finish b c))"
  using leave by (simp add: finish_def)

lemma finish_conn: "finish b c = (b', c') \<Longrightarrow> c_conn c' = c_conn c"
  using finish_frame(4) [of b c] by simp

lemma body_Read_ends:
  assumes "inside c" "b_ctx b = ctx" "\<not> b_done b" "body_Read k b c = (r, b', c')"
  shows "r \<noteq> BBlocks \<and> now (c_conn c') \<le> max (now (c_conn c)) limit
    \<and> (\<forall>bs. r = BData bs \<longrightarrow> inside c' \<and> b_ctx b' = ctx \<and> \<not> b_done b') \<and> (r = BEOF \<longrightarrow> outside c')"
proof (cases "b_buf b = []")
  case True
  obtain q c1 where rl: "client_readLine ctx c = (q, c1)" by fastforce
  note t = in_timeD [OF readLine assms(1) rl]
  show ?thesis
    using assms True rl t finish_outside [of c1 b] finish_conn [of b c1 b' c']
    by (cases q) (auto simp: body_Read_def body_take_def split: if_splits)
next
  case False
  with assms show ?thesis by (auto simp: body_Read_def body_take_def)
qed

lemma read_body_ends:
  assumes "inside c" "b_ctx b = ctx" "\<not> b_done b" "body_ReadAll k acc b c = (r, b', c')"
  shows "r \<noteq> Blocks \<and> now (c_conn c') \<le> max (now (c_conn c)) limit \<and> (is_done r \<longrightarrow> outside c')"
  using assms
proof (induction k acc b c rule: body_ReadAll.induct)
  case (1 k acc b c)
  obtain q b1 c1 where rd: "body_Read (Suc k) b c = (q, b1, c1)" by (metis prod_cases3)
  note t = body_Read_ends [OF "1.prems"(1-3) rd]
  show ?case
  proof (cases q)
    case (BData bs)
    with t "1.IH" [OF rd [symmetric] BData refl] "1.prems"(4) rd show ?thesis
      by (auto simp: body_ReadAll.simps [of k acc b c])
  qed (use t "1.prems"(4) rd in \<open>auto simp: body_ReadAll.simps [of k acc b c]\<close>)
qed

lemma close_body_ends:
  assumes "inside c" "b_ctx b = ctx" "\<not> b_done b" "body_Close b c = (r, b', c')"
  shows "r \<noteq> Blocks \<and> now (c_conn c') \<le> max (now (c_conn c)) limit \<and> (is_done r \<longrightarrow> outside c')"
  using assms
proof (induction b c rule: body_Close.induct)
  case (1 b c)
  obtain q c1 where rl: "client_readLine ctx c = (q, c1)" by fastforce
  note t = in_timeD [OF readLine "1.prems"(1) rl]
  show ?case
  proof (cases q)
    case (Done line)
    show ?thesis
    proof (cases "line = [DOT]")
      case True
      have "body_Close b c = (Done (), finish (fst (finish b c1)) (snd (finish b c1)))"
        using "1.prems" rl Done True
        by (simp add: body_Close.simps [of b c] body_Close.simps [of "fst (finish b c1)" "snd (finish b c1)"])
      moreover have "snd (finish (fst (finish b c1)) (snd (finish b c1))) = snd (finish b c1)"
        by (simp add: finish_def)
      ultimately have "r = Done ()" "c' = snd (finish b c1)"
        using "1.prems"(4) by (auto simp: prod_eq_iff)
      then show ?thesis using t Done finish_outside [of c1 b] "1.prems"(2) by simp
    next
      case False
      have "body_Close b c1 = (r, b', c')"
        using "1.prems" rl Done False by (simp add: body_Close.simps [of b c])
      with "1.IH"(2) [OF "1.prems"(3) _ Done False] "1.prems"(2,3) rl t Done show ?thesis by auto
    qed
  next
    case (Failed e)
    with "1.prems" rl have "r = Failed e" "c' = snd (finish b c1)"
      by (auto simp: body_Close.simps [of b c] prod_eq_iff)
    with t show ?thesis by simp
  next
    case Blocks
    with t show ?thesis by simp
  qed
qed

text \<open>Retrieving a message and reading it, or closing the reader, as one operation.\<close>

lemma retrieval:
  assumes "\<And>c b r c'. inside c \<Longrightarrow> b_ctx b = ctx \<Longrightarrow> \<not> b_done b \<Longrightarrow> f b c = (r, c') \<Longrightarrow>
      r \<noteq> Blocks \<and> now (c_conn c') \<le> max (now (c_conn c)) limit \<and> (is_done r \<longrightarrow> outside c')"
  shows "in_time outside limit (and_then (retrieve ctx cmd) f)"
proof (rule in_timeI)
  fix c r c' assume c: "outside c" and op: "and_then (retrieve ctx cmd) f c = (r, c')"
  let ?g = "\<lambda>status. if \<not> isOK status then fail (ProtocolError status) else return (newBody ctx)"
  obtain q c1 where ex: "and_then (exchange ctx cmd) ?g (arm ctx c) = (q, c1)" by fastforce
  have "in_time inside limit (and_then (exchange ctx cmd) ?g)" by (intro in_time_intros exchange)
  note t = in_timeD [OF this enter [OF c] ex, unfolded arm_now]
  show "r \<noteq> Blocks \<and> now (c_conn c') \<le> max (now (c_conn c)) limit \<and> (is_done r \<longrightarrow> outside c')"
  proof (cases q)
    case (Done b)
    have b: "b = newBody ctx"
      using ex Done by (auto simp: and_then_def return_def fail_def split: prod.splits reply.splits if_splits)
    have "f b c1 = (r, c')" using op ex Done by (simp add: and_then_def [of "retrieve ctx cmd"] retrieve_def)
    with assms [of c1 b r c'] b t Done show ?thesis by auto
  qed (use t op ex in \<open>auto simp: and_then_def [of "retrieve ctx cmd"] retrieve_def\<close>)
qed

lemma retrievals:
  "in_time outside limit (and_then (client_Retr ctx msg) (read_body k))"
  "in_time outside limit (and_then (client_Retr ctx msg) close_body)"
  "in_time outside limit (and_then (client_Top ctx msg lines) (read_body k))"
  "in_time outside limit (and_then (client_Top ctx msg lines) close_body)"
  unfolding client_Retr_def client_Top_def
  by (rule retrieval, use read_body_ends close_body_ends in
      \<open>fastforce simp: read_body_def close_body_def split: prod.splits\<close>)+

lemma greeting:
  assumes "inside c" shows "fst (dial_greeting ctx o1 c) \<noteq> Blocks"
proof -
  obtain q c1 where rl: "client_readLine ctx c = (q, c1)" by fastforce
  note t = in_timeD [OF readLine assms rl]
  have "fst (startTLS ctx x) \<noteq> Blocks" if "outside x" for x
    using in_timeD(1) [OF cmdExpectOK that, of "''STLS''"]
    by (auto simp: startTLS_def and_then_def Let_def split: prod.splits reply.splits if_splits)
  moreover have "outside (c1\<lparr>greeting := g\<rparr>)" if "is_done q" for g
    using that t(3) leave(1) greet by blast
  ultimately show ?thesis
    using t(1) rl by (cases q) (auto simp: dial_greeting_def and_then_def fail_def return_def)
qed

end

section \<open>The three ways to be in time\<close>

text \<open>The writer of a client has no timeout of its own.\<close>

definition plain :: "Client \<Rightarrow> bool" where
  "plain c \<longleftrightarrow> wtimeout (c_writer c) = 0"

text \<open>
  What reading a line and writing a command have in common: they wait under a deadline and the guards
  that have not fired, and leave the rest of the client alone.
\<close>

definition waits :: "Ctx \<Rightarrow> Client \<Rightarrow> 'a reply \<Rightarrow> Client \<Rightarrow> bool" where
  "waits ctx c r c' \<longleftrightarrow>
     (\<exists>d n x. c' = resume (\<not> is_done r) d n \<and> plain d \<and> guards d = guards (settle False c)
        \<and> (ctx_Deadline ctx = None \<longrightarrow> rdeadline (c_conn d) = rdeadline (c_conn (settle False c))
             \<and> wdeadline (c_conn d) = wdeadline (c_conn (settle False c)))
        \<and> now (c_conn c) \<le> now n
        \<and> x \<in> {rdeadline (c_conn (settle False c)), wdeadline (c_conn (settle False c))}
        \<and> (\<forall>e. earlier (case ctx_Deadline ctx of None \<Rightarrow> x | Some t \<Rightarrow> Some t) (soonest (guards d)) = Some e \<longrightarrow>
              r \<noteq> Blocks \<and> now n \<le> max (now (c_conn c)) e))"

lemma readLine_waits:
  assumes "client_readLine ctx c = (r, c')" "plain c"
  shows "waits ctx c r c'"
proof -
  let ?s = "settle False c"
  define d where "d = set_read_deadline ctx ?s"
  obtain q b n where lp: "client_readLine_loop (maxLine d) [] (c_reader d) (limited d) = (q, b, n)"
    by (metis prod_cases3)
  have "now (c_conn c) \<le> now n"
    using client_readLine_loop_same_peer [OF lp] by (simp add: same_peer_def d_def)
  moreover have "r = q" "c' = resume (\<not> is_done r) (d\<lparr>c_reader := b\<rparr>) n"
    using assms(1) lp unfolding client_readLine_def d_def by (auto simp: Let_def)
  moreover have "rdeadline (limited d) =
      earlier (case ctx_Deadline ctx of None \<Rightarrow> rdeadline (c_conn ?s) | Some t \<Rightarrow> Some t) (soonest (guards d))"
    by (simp add: limited_read d_def)
  moreover have "ctx_Deadline ctx = None \<Longrightarrow> rdeadline (c_conn d) = rdeadline (c_conn ?s)"
    by (simp add: d_def set_read_deadline_def)
  ultimately show ?thesis
    using client_readLine_loop_deadline [OF lp] assms(2) unfolding waits_def
    by (intro exI [of _ "d\<lparr>c_reader := b\<rparr>"] exI [of _ n] exI [of _ "rdeadline (c_conn ?s)"])
      (auto simp: plain_def d_def)
qed

lemma writeCmd_waits:
  assumes "writeCmd ctx line c = (r, c')" "plain c"
  shows "waits ctx c r c'" "r \<noteq> Blocks"
proof -
  let ?s = "settle False c"
  define d where "d = set_write_deadline ctx ?s"
  obtain e w n where w: "bufw_Write (c_writer d, limited d) (line @ CRLF) = (e, w, n)" by (metis prod_cases3)
  obtain f v m where v: "Flush (w, n) = (f, v, m)" by (metis prod_cases3)
  have wt: "writes_to (c_writer d, limited d) (w, n)" by (rule bufw_Write_writes_to [OF w])
  then have vt: "writes_to (c_writer d, limited d) (v, m)" using Flush_writes_to [OF v] by (rule writes_to_trans)
  have r: "r \<noteq> Blocks \<and> (c' = resume (\<not> is_done r) (d\<lparr>c_writer := w\<rparr>) n \<or> c' = resume (\<not> is_done r) (d\<lparr>c_writer := v\<rparr>) m)"
    using assms(1) w v unfolding writeCmd_def d_def by (cases e; cases f) (auto simp: Let_def)
  then show "r \<noteq> Blocks" by blast
  obtain y k where yk: "c' = resume (\<not> is_done r) (d\<lparr>c_writer := y\<rparr>) k" "writes_to (c_writer d, limited d) (y, k)"
    using r wt vt by blast
  have pl: "wtimeout (c_writer d) = 0" "now (limited d) = now (c_conn c)"
    using assms(2) by (simp_all add: plain_def d_def)
  have "wdeadline (limited d) =
      earlier (case ctx_Deadline ctx of None \<Rightarrow> wdeadline (c_conn ?s) | Some t \<Rightarrow> Some t) (soonest (guards d))"
    by (simp add: limited_write d_def)
  moreover have "ctx_Deadline ctx = None \<Longrightarrow> wdeadline (c_conn d) = wdeadline (c_conn ?s)"
    by (simp add: d_def set_write_deadline_def)
  ultimately show "waits ctx c r c'"
    using yk pl r unfolding waits_def
    by (intro exI [of _ "d\<lparr>c_writer := y\<rparr>"] exI [of _ k] exI [of _ "wdeadline (c_conn ?s)"])
      (auto simp: plain_def d_def writes_to_def)
qed

text \<open>A guard that is not due stays armed, and a deadline that has passed stays passed.\<close>

lemma resume_guard:
  "g \<in> set (guards c) \<Longrightarrow> \<not> due f (now n) g \<Longrightarrow> g \<in> set (guards (resume f c n))"
  by (simp add: resume_def settle_def client_SetDeadline_def Let_def)

lemma settle_guard:
  "g \<in> set (guards c) \<Longrightarrow> \<not> due f (now (c_conn c)) g \<Longrightarrow> g \<in> set (guards (settle f c))"
  by (simp add: settle_def client_SetDeadline_def Let_def)

lemma foldr_max_le: "(\<And>x. x \<in> set xs \<Longrightarrow> x \<le> (b :: int)) \<Longrightarrow> y \<le> b \<Longrightarrow> foldr max xs y \<le> b"
  by (induction xs) auto

lemma settle_passed:
  "passed (rdeadline (c_conn c)) (now (c_conn c)) \<or> (\<exists>g \<in> set (guards c). due f (now (c_conn c)) g) \<Longrightarrow>
     passed (rdeadline (c_conn (settle f c))) (now (c_conn c))"
  "passed (wdeadline (c_conn c)) (now (c_conn c)) \<or> (\<exists>g \<in> set (guards c). due f (now (c_conn c)) g) \<Longrightarrow>
     passed (wdeadline (c_conn (settle f c))) (now (c_conn c))"
proof -
  let ?fired = "filter (due f (now (c_conn c))) (guards c)"
  have "foldr max ?fired (hd ?fired) \<le> now (c_conn c)" if "?fired \<noteq> []"
    using hd_in_set [OF that] by (intro foldr_max_le) (auto simp: due_def)
  then have "foldr max ?fired (hd ?fired) - second < now (c_conn c)" if "\<exists>g \<in> set (guards c). due f (now (c_conn c)) g"
    using that by (force simp: filter_empty_conv)
  then show "passed (rdeadline (c_conn c)) (now (c_conn c)) \<or> (\<exists>g \<in> set (guards c). due f (now (c_conn c)) g) \<Longrightarrow>
      passed (rdeadline (c_conn (settle f c))) (now (c_conn c))"
    "passed (wdeadline (c_conn c)) (now (c_conn c)) \<or> (\<exists>g \<in> set (guards c). due f (now (c_conn c)) g) \<Longrightarrow>
      passed (wdeadline (c_conn (settle f c))) (now (c_conn c))"
    by (auto simp: settle_def client_SetDeadline_def Let_def filter_empty_conv)
qed

lemma passed_later: "passed d s \<Longrightarrow> s \<le> t \<Longrightarrow> passed d t"
  by (cases d) auto

lemma resume_passed:
  "passed (rdeadline (c_conn c)) (now n) \<Longrightarrow> passed (rdeadline (c_conn (resume f c n))) (now n)"
  "passed (wdeadline (c_conn c)) (now n) \<Longrightarrow> passed (wdeadline (c_conn (resume f c n))) (now n)"
  using settle_passed [of "c\<lparr>c_conn := n\<lparr>rdeadline := rdeadline (c_conn c), wdeadline := wdeadline (c_conn c)\<rparr>\<rparr>" f]
  by (simp_all add: resume_def)

lemma earlier_soonest: "t \<in> set gs \<Longrightarrow> \<exists>e. earlier x (soonest gs) = Some e \<and> e \<le> t"
  using soonest_mem [of t gs] by (cases x) auto

lemma earlier_passed: "passed d t \<Longrightarrow> \<exists>e. earlier d x = Some e \<and> e < t"
  by (cases d; cases x) auto

text \<open>A context that is not done yet: its guard ends every wait.\<close>

definition before_done :: "Ctx \<Rightarrow> Client \<Rightarrow> bool" where
  "before_done ctx c \<longleftrightarrow> plain c \<and> (\<exists>t. ctx_Done ctx = Some t \<and> now (c_conn c) \<le> t)"

definition armed :: "Ctx \<Rightarrow> Client \<Rightarrow> bool" where
  "armed ctx c \<longleftrightarrow> (\<forall>t. ctx_Done ctx = Some t \<longrightarrow> t \<in> set (guards c))"

definition under_guard :: "Ctx \<Rightarrow> Client \<Rightarrow> bool" where
  "under_guard ctx c \<longleftrightarrow> before_done ctx c \<and> armed ctx c"

lemma waits_under_guard:
  assumes "under_guard ctx c" "waits ctx c r c'"
  shows "r \<noteq> Blocks \<and> now (c_conn c') \<le> max (now (c_conn c)) (the (ctx_Done ctx)) \<and> (is_done r \<longrightarrow> under_guard ctx c')"
proof -
  obtain t where t: "ctx_Done ctx = Some t" "t \<in> set (guards c)" "now (c_conn c) \<le> t"
    using assms(1) by (auto simp: under_guard_def before_done_def armed_def)
  obtain d n x where d: "c' = resume (\<not> is_done r) d n" "plain d" "guards d = guards (settle False c)"
    and ends: "\<forall>e. earlier (case ctx_Deadline ctx of None \<Rightarrow> x | Some t \<Rightarrow> Some t) (soonest (guards d)) = Some e \<longrightarrow>
      r \<noteq> Blocks \<and> now n \<le> max (now (c_conn c)) e"
    using assms(2) unfolding waits_def by blast
  have g: "t \<in> set (guards d)" unfolding d(3) using t by (intro settle_guard) (auto simp: due_def)
  then obtain e where "earlier (case ctx_Deadline ctx of None \<Rightarrow> x | Some t \<Rightarrow> Some t) (soonest (guards d)) = Some e" "e \<le> t"
    using earlier_soonest by blast
  with ends t(3) have n: "r \<noteq> Blocks" "now n \<le> t" by force+
  moreover have "t \<in> set (guards c')" if "is_done r"
    unfolding d(1) using g n(2) that by (intro resume_guard) (auto simp: due_def)
  ultimately show ?thesis
    using t d(1,2) by (auto simp: under_guard_def before_done_def armed_def plain_def)
qed

interpretation not_done: time_limit ctx "under_guard ctx" "before_done ctx" "the (ctx_Done ctx)" for ctx
proof unfold_locales
  fix c line g
  have pl: "plain c" if "under_guard ctx c" for c using that by (simp add: under_guard_def before_done_def)
  show "in_time (under_guard ctx) (the (ctx_Done ctx)) (client_readLine ctx)"
    using waits_under_guard readLine_waits pl by (intro in_timeI) blast
  show "in_time (under_guard ctx) (the (ctx_Done ctx)) (writeCmd ctx line)"
    using waits_under_guard writeCmd_waits pl by (intro in_timeI) blast
  show "before_done ctx c \<Longrightarrow> under_guard ctx (arm ctx c)"
    by (auto simp: before_done_def under_guard_def armed_def arm_def plain_def due_def intro!: settle_guard)
  show "under_guard ctx c \<Longrightarrow> before_done ctx c" by (simp add: under_guard_def)
  show "under_guard ctx c \<Longrightarrow> before_done ctx (stop ctx c)"
    by (auto simp: under_guard_def before_done_def plain_def)
  show "before_done ctx c \<Longrightarrow> before_done ctx (c\<lparr>greeting := g\<rparr>)" by (simp add: before_done_def plain_def)
qed

text \<open>A context with a deadline: every read and every write sets it anew.\<close>

definition has_deadline :: "Ctx \<Rightarrow> Client \<Rightarrow> bool" where
  "has_deadline ctx c \<longleftrightarrow> plain c \<and> ctx_Deadline ctx \<noteq> None"

lemma waits_has_deadline:
  assumes "has_deadline ctx c" "waits ctx c r c'"
  shows "r \<noteq> Blocks \<and> now (c_conn c') \<le> max (now (c_conn c)) (the (ctx_Deadline ctx)) \<and> (is_done r \<longrightarrow> has_deadline ctx c')"
proof -
  obtain t where t: "ctx_Deadline ctx = Some t" using assms(1) by (auto simp: has_deadline_def)
  obtain d n x where d: "c' = resume (\<not> is_done r) d n" "plain d"
    and ends: "\<forall>e. earlier (Some t) (soonest (guards d)) = Some e \<longrightarrow> r \<noteq> Blocks \<and> now n \<le> max (now (c_conn c)) e"
    using assms(2) t unfolding waits_def by auto
  obtain e where "earlier (Some t) (soonest (guards d)) = Some e" "e \<le> t"
    by (auto simp: earlier_Some split: option.splits)
  with ends have "r \<noteq> Blocks" "now n \<le> max (now (c_conn c)) t" by force+
  with t d show ?thesis by (simp add: has_deadline_def plain_def)
qed

interpretation deadline: time_limit ctx "has_deadline ctx" "has_deadline ctx" "the (ctx_Deadline ctx)" for ctx
proof unfold_locales
  fix c line g
  have pl: "plain c" if "has_deadline ctx c" for c using that by (simp add: has_deadline_def)
  show "in_time (has_deadline ctx) (the (ctx_Deadline ctx)) (client_readLine ctx)"
    using waits_has_deadline readLine_waits pl by (intro in_timeI) blast
  show "in_time (has_deadline ctx) (the (ctx_Deadline ctx)) (writeCmd ctx line)"
    using waits_has_deadline writeCmd_waits pl by (intro in_timeI) blast
qed (auto simp: has_deadline_def plain_def arm_def split: option.split)

text \<open>A context without a deadline that is cancelled already: nothing waits any more.\<close>

definition after_cancel :: "Ctx \<Rightarrow> Client \<Rightarrow> bool" where
  "after_cancel ctx c \<longleftrightarrow> plain c \<and> ctx_Deadline ctx = None \<and> (\<exists>t. ctx_Done ctx = Some t \<and> t < now (c_conn c))"

definition cut_off :: "Ctx \<Rightarrow> Client \<Rightarrow> bool" where
  "cut_off ctx c \<longleftrightarrow> after_cancel ctx c \<and> passed (rdeadline (c_conn c)) (now (c_conn c))
     \<and> passed (wdeadline (c_conn c)) (now (c_conn c))"

lemma waits_cut_off:
  assumes "cut_off ctx c" "waits ctx c r c'"
  shows "r \<noteq> Blocks \<and> now (c_conn c') \<le> max (now (c_conn c)) (the (ctx_Done ctx)) \<and> (is_done r \<longrightarrow> cut_off ctx c')"
proof -
  obtain t where t: "ctx_Done ctx = Some t" "t < now (c_conn c)" "ctx_Deadline ctx = None"
    using assms(1) by (auto simp: cut_off_def after_cancel_def)
  have p: "passed (rdeadline (c_conn (settle False c))) (now (c_conn c))"
    "passed (wdeadline (c_conn (settle False c))) (now (c_conn c))"
    using assms(1) by (simp_all add: cut_off_def settle_passed)
  obtain d n x where d: "c' = resume (\<not> is_done r) d n" "plain d"
      "rdeadline (c_conn d) = rdeadline (c_conn (settle False c))"
      "wdeadline (c_conn d) = wdeadline (c_conn (settle False c))" "now (c_conn c) \<le> now n"
    and x: "x \<in> {rdeadline (c_conn (settle False c)), wdeadline (c_conn (settle False c))}"
    and ends: "\<forall>e. earlier x (soonest (guards d)) = Some e \<longrightarrow> r \<noteq> Blocks \<and> now n \<le> max (now (c_conn c)) e"
    using assms(2) t(3) unfolding waits_def by auto
  have "passed x (now (c_conn c))" using x p by auto
  then obtain e where "earlier x (soonest (guards d)) = Some e" "e < now (c_conn c)" using earlier_passed by blast
  with ends have n: "r \<noteq> Blocks" "now n \<le> now (c_conn c)" by force+
  have "passed (rdeadline (c_conn d)) (now n)" "passed (wdeadline (c_conn d)) (now n)"
    unfolding d(3,4) using p d(5) by (auto intro: passed_later)
  then have "cut_off ctx c'"
    using t d(1,2,5) by (auto simp: cut_off_def after_cancel_def plain_def intro: resume_passed)
  with n d(1) show ?thesis by auto
qed

lemma arm_cut_off:
  assumes "after_cancel ctx c"
  shows "cut_off ctx (arm ctx c)"
proof -
  obtain t where t: "ctx_Done ctx = Some t" "t < now (c_conn c)" using assms by (auto simp: after_cancel_def)
  let ?c = "c\<lparr>guards := t # guards c\<rparr>"
  have "due False (now (c_conn ?c)) t" using t(2) by (simp add: due_def)
  then have "passed (rdeadline (c_conn (settle False ?c))) (now (c_conn ?c))"
    "passed (wdeadline (c_conn (settle False ?c))) (now (c_conn ?c))"
    using settle_passed [of ?c False] by auto
  then show ?thesis using assms t by (simp add: cut_off_def arm_def after_cancel_def plain_def)
qed

interpretation cancelled: time_limit ctx "cut_off ctx" "after_cancel ctx" "the (ctx_Done ctx)" for ctx
proof unfold_locales
  fix c line g
  have pl: "plain c" if "cut_off ctx c" for c using that by (simp add: cut_off_def after_cancel_def)
  show "in_time (cut_off ctx) (the (ctx_Done ctx)) (client_readLine ctx)"
    using waits_cut_off readLine_waits pl by (intro in_timeI) blast
  show "in_time (cut_off ctx) (the (ctx_Done ctx)) (writeCmd ctx line)"
    using waits_cut_off writeCmd_waits pl by (intro in_timeI) blast
  show "after_cancel ctx c \<Longrightarrow> cut_off ctx (arm ctx c)" by (rule arm_cut_off)
qed (auto simp: cut_off_def after_cancel_def plain_def)

section \<open>When calls end\<close>

definition ends_in_time :: "Ctx \<Rightarrow> 'a client_op \<Rightarrow> bool" where
  "ends_in_time ctx op \<longleftrightarrow>
     (\<forall>c t. plain c \<and> ctx_Done ctx = Some t \<longrightarrow>
        fst (op c) \<noteq> Blocks
        \<and> (now (c_conn c) \<le> t \<longrightarrow> now (c_conn (snd (op c))) \<le> t)
        \<and> now (c_conn (snd (op c))) \<le>
            max (now (c_conn c)) (case ctx_Deadline ctx of None \<Rightarrow> t | Some d \<Rightarrow> d))"

lemma ends_in_timeI:
  assumes "in_time (before_done ctx) (the (ctx_Done ctx)) op"
    and "in_time (has_deadline ctx) (the (ctx_Deadline ctx)) op"
    and "in_time (after_cancel ctx) (the (ctx_Done ctx)) op"
  shows "ends_in_time ctx op"
  unfolding ends_in_time_def
proof (intro allI impI)
  fix c t assume c: "plain c \<and> ctx_Done ctx = Some t"
  have early: "fst (op c) \<noteq> Blocks \<and> now (c_conn (snd (op c))) \<le> t" if "now (c_conn c) \<le> t"
    using in_timeD(1,2) [OF assms(1) _ prod.collapse [symmetric], of c] c that by (simp add: before_done_def)
  have dl: "fst (op c) \<noteq> Blocks \<and> now (c_conn (snd (op c))) \<le> max (now (c_conn c)) d"
    if "ctx_Deadline ctx = Some d" for d
    using in_timeD(1,2) [OF assms(2) _ prod.collapse [symmetric], of c] c that by (simp add: has_deadline_def)
  have late: "fst (op c) \<noteq> Blocks \<and> now (c_conn (snd (op c))) \<le> max (now (c_conn c)) t"
    if "ctx_Deadline ctx = None" "t < now (c_conn c)"
    using in_timeD(1,2) [OF assms(3) _ prod.collapse [symmetric], of c] c that by (simp add: after_cancel_def)
  show "fst (op c) \<noteq> Blocks \<and> (now (c_conn c) \<le> t \<longrightarrow> now (c_conn (snd (op c))) \<le> t)
      \<and> now (c_conn (snd (op c))) \<le> max (now (c_conn c)) (case ctx_Deadline ctx of None \<Rightarrow> t | Some d \<Rightarrow> d)"
    using early dl late by (cases "ctx_Deadline ctx"; cases "now (c_conn c) \<le> t") auto
qed

lemma Dial_ends:
  assumes "ctx_Done ctx = Some t"
  shows "Dial ctx dialed o1 \<noteq> Blocks"
proof -
  have "fst (guard ctx (dial_greeting ctx o1) (newClient o1 n)) \<noteq> Blocks" for n
  proof -
    let ?c = "newClient o1 n"
    have "plain ?c" by (simp add: plain_def newClient_def NewWriter_def)
    then have "before_done ctx ?c \<or> has_deadline ctx ?c \<or> after_cancel ctx ?c"
      using assms by (auto simp: before_done_def has_deadline_def after_cancel_def)
    then have "fst (dial_greeting ctx o1 (arm ctx ?c)) \<noteq> Blocks"
      using not_done.greeting [OF not_done.enter] deadline.greeting [OF deadline.enter]
        cancelled.greeting [OF cancelled.enter] by blast
    then show ?thesis by (simp add: guard_def case_prod_beta)
  qed
  then show ?thesis
    unfolding Dial_def Let_def by (simp add: case_prod_beta split: sum.split reply.split)
qed

lemmas all_in_time =
  not_done.Cmd not_done.commands not_done.retrievals deadline.Cmd deadline.commands deadline.retrievals
  cancelled.Cmd cancelled.commands cancelled.retrievals


text \<open>
  C37: a context that is cancelled before the call but has a deadline does not stop it. The guard fires as
  soon as it is armed and moves the deadlines into the past, but writing the command and reading the
  status line set them to the deadline of the context again, and the guard is spent: the command is sent,
  and the call succeeds if the status line comes by the deadline, however long after the cancellation.
\<close>

theorem cancelled_call_goes_on:
  assumes "ctx_Deadline ctx = Some d" and "ctx_Cancel ctx = Some t" and "t < now (c_conn c)" and "now (c_conn c) \<le> d"
    and "guards c = []" and "werr (c_writer c) = None" and "wbudget (c_conn c) = None" and "wslow (c_conn c) = []"
    and "pending (c_reader c) ((c_conn c)\<lparr>rdeadline := Some d\<rparr>) evs (l @ CRLF @ rest)"
    and "LF \<notin> set l" and "int (length l) \<le> maxLine c"
  shows "\<exists>c'. Cmd ctx line c = (Done l, c')"
proof -
  have dn: "ctx_Done ctx = Some t" using assms(1-4) by (simp add: ctx_Done_def)
  let ?c = "arm ctx c"
  have g: "guards ?c = []"
    using dn assms(3,5) by (simp add: arm_def settle_def client_SetDeadline_def due_def Let_def)
  have f: "c_reader ?c = c_reader c" "c_writer ?c = c_writer c" "maxLine ?c = maxLine c"
    "net (c_conn ?c) = net (c_conn c)" "now (c_conn ?c) = now (c_conn c)" "wbudget (c_conn ?c) = wbudget (c_conn c)"
    "wslow (c_conn ?c) = wslow (c_conn c)"
    using dn by (simp_all add: arm_def)
  have "can_write ctx ?c"
    using assms(1,4,6-8) f by (simp add: can_write_def healthy_def limited_write g)
  moreover have "pending (c_reader c) (limited (set_read_deadline ctx ?c)) evs (l @ CRLF @ rest)"
    using assms(9) f by (subst pending_cong [of _ "(c_conn c)\<lparr>rdeadline := Some d\<rparr>"]) (simp_all add: limited_read assms(1) g)
  then have "expects ctx ?c evs (l @ CRLF @ rest)" using f by (simp add: expects_def unfired_def g)
  ultimately obtain c' where "exchange ctx line ?c = (Done l, c')"
    using exchange_expects [of ctx ?c evs l rest line] assms(10,11) f by auto
  then show ?thesis by (simp add: Cmd_def guard_def)
qed

section \<open>What a call leaves behind\<close>

text \<open>The write deadline of a call stays on the connection, or a guard has moved it into the past.\<close>

definition write_until :: "int \<Rightarrow> Client \<Rightarrow> bool" where
  "write_until d c \<longleftrightarrow> wdeadline (c_conn c) = Some d \<or> passed (wdeadline (c_conn c)) (now (c_conn c))"

lemma settle_write_until:
  assumes "write_until d c"
  shows "write_until d (settle f c)"
proof (cases "\<exists>g \<in> set (guards c). due f (now (c_conn c)) g")
  case True
  then show ?thesis using settle_passed(2) [of c f] by (simp add: write_until_def)
next
  case False
  then have "settle f c = c" by (auto simp: settle_def filter_empty_conv Let_def)
  with assms show ?thesis by simp
qed

lemma resume_write_until: "write_until d c \<Longrightarrow> now (c_conn c) \<le> now n \<Longrightarrow> write_until d (resume f c n)"
  unfolding resume_def by (rule settle_write_until) (auto simp: write_until_def intro: passed_later)

lemma readLine_write_until:
  assumes "client_readLine ctx c = (r, c')" "write_until d c"
  shows "write_until d c'" "c_writer c' = c_writer c"
proof -
  let ?d = "set_read_deadline ctx (settle False c)"
  obtain q b n where lp: "client_readLine_loop (maxLine ?d) [] (c_reader ?d) (limited ?d) = (q, b, n)"
    by (metis prod_cases3)
  then have c': "c' = resume (\<not> is_done r) (?d\<lparr>c_reader := b\<rparr>) n"
    using assms(1) unfolding client_readLine_def lp Let_def by auto
  have "now (c_conn c) \<le> now n" using client_readLine_loop_same_peer [OF lp] by (simp add: same_peer_def)
  moreover have "write_until d (?d\<lparr>c_reader := b\<rparr>)"
    using settle_write_until [OF assms(2), of False] by (simp add: write_until_def)
  ultimately show "write_until d c'" unfolding c' by (intro resume_write_until) simp_all
  show "c_writer c' = c_writer c" by (simp add: c')
qed

lemma Flush_ok: "Flush (w, n) = (None, v, m) \<Longrightarrow> werr v = None \<and> wtimeout v = wtimeout w"
  by (auto simp: Flush_def split: option.splits if_splits prod.splits)

lemma exchange_write_until:
  assumes "exchange ctx line c = (Done l, c')" "ctx_Deadline ctx = Some d" "plain c"
  shows "write_until d c'" "werr (c_writer c') = None" "plain c'"
proof -
  obtain c1 where w1: "writeCmd ctx line c = (Done (), c1)" and rl: "client_readLine ctx c1 = (Done l, c')"
    using assms(1) by (auto simp: exchange_def and_then_def split: prod.splits reply.splits)
  let ?d = "set_write_deadline ctx (settle False c)"
  obtain w n where w: "bufw_Write (c_writer c, limited ?d) (line @ CRLF) = (None, w, n)"
    using w1 by (auto simp: writeCmd_def Let_def split: prod.splits option.splits)
  obtain v m where v: "Flush (w, n) = (None, v, m)" and c1: "c1 = resume False (?d\<lparr>c_writer := v\<rparr>) m"
    using w1 w by (auto simp: writeCmd_def Let_def split: prod.splits option.splits)
  have "writes_to (c_writer c, limited ?d) (v, m)"
    using writes_to_trans [OF bufw_Write_writes_to [OF w] Flush_writes_to [OF v]] .
  then have m: "now (c_conn c) \<le> now m" "wtimeout v = wtimeout (c_writer c)" by (simp_all add: writes_to_def)
  have "write_until d (?d\<lparr>c_writer := v\<rparr>)" by (simp add: write_until_def set_write_deadline_def assms(2))
  then have "write_until d c1" using m(1) unfolding c1 by (intro resume_write_until) simp_all
  then show "write_until d c'" "werr (c_writer c') = None" "plain c'"
    using readLine_write_until [OF rl] Flush_ok [OF v] m(2) assms(3) c1 by (simp_all add: plain_def)
qed

lemma late_write_fails:
  assumes "passed (wdeadline n) (now n)" "wtimeout w = 0" "werr w = None" "s \<noteq> []"
  shows "(\<exists>w'. bufw_Write (w, n) s = (Some ErrTimeout, w', n))
    \<or> (\<exists>w' v. bufw_Write (w, n) s = (None, w', n) \<and> Flush (w', n) = (Some ErrTimeout, v, n))"
proof -
  have cw: "writeDeadlineConn_Write 0 x n = (Some ErrTimeout, n)" for x
    using assms(1) by (simp add: writeDeadlineConn_Write_def conn_Write_def)
  show ?thesis
    using assms by (cases "length (wbuf w @ s) \<le> bufsize")
      (auto simp: bufw_Write_def write_all.simps [of w n "wbuf w @ s"] Flush_def cw)
qed

text \<open>
  C38: the deadline of a call outlives the call. After a command with a deadline has succeeded, once that
  deadline is over the next command with a context that has none fails with a timeout and is not sent,
  however promptly the server would answer: the deadlines on the connection are set and never cleared.
\<close>

theorem deadline_outlives_call:
  assumes "Cmd ctx line c = (Done l, c1)" and "ctx_Deadline ctx = Some d" and "plain c"
    and "d < t" and "now (c_conn c1) \<le> t"
  shows "\<exists>c2. Cmd \<lparr>ctx_Deadline = None, ctx_Cancel = None\<rparr> line' (c1\<lparr>c_conn := (c_conn c1)\<lparr>now := t\<rparr>\<rparr>) =
      (Failed (NetErr ErrTimeout), c2) \<and> sent (c_conn c2) = sent (c_conn c1)"
proof -
  obtain c0 where ex: "exchange ctx line (arm ctx c) = (Done l, c0)" and c1: "c1 = stop ctx c0"
    using assms(1) by (auto simp: Cmd_def guard_def split: prod.splits)
  have "plain (arm ctx c)" using assms(3) by (simp add: plain_def arm_def split: option.split)
  note e = exchange_write_until [OF ex assms(2) this]
  let ?ctx = "\<lparr>ctx_Deadline = None, ctx_Cancel = None\<rparr>" and ?c = "c1\<lparr>c_conn := (c_conn c1)\<lparr>now := t\<rparr>\<rparr>"
  have nd: "ctx_Done ?ctx = None" by (simp add: ctx_Done_def)
  have "passed (wdeadline (c_conn ?c)) (now (c_conn ?c))"
    using e(1) assms(4,5) by (auto simp: write_until_def c1 intro: passed_later)
  from settle_passed(2) [OF disjI1 [OF this], of False] obtain x
    where "earlier (wdeadline (c_conn (settle False ?c))) (soonest (guards (settle False ?c))) = Some x" "x < t"
    using earlier_passed by fastforce
  then have p: "passed (wdeadline (limited (settle False ?c))) (now (limited (settle False ?c)))"
    by (simp add: limited_def)
  have w: "c_writer (settle False ?c) = c_writer c0" "set_write_deadline ?ctx (settle False ?c) = settle False ?c"
    by (simp_all add: c1 set_write_deadline_def)
  have "\<exists>c2. writeCmd ?ctx line' ?c = (Failed (NetErr ErrTimeout), c2) \<and> sent (c_conn c2) = sent (c_conn c1)"
    using late_write_fails [OF p, of "c_writer c0" "line' @ CRLF"] e(2,3)
    unfolding writeCmd_def Let_def w by (auto simp: plain_def)
  then show ?thesis by (auto simp: Cmd_def guard_def arm_def stop_def nd exchange_def and_then_def)
qed

section \<open>A closed client\<close>

lemma broken_write_fails:
  assumes "wbudget n = Some 0" "s \<noteq> []"
  shows "(\<exists>e w' n'. bufw_Write (w, n) s = (Some e, w', n') \<and> sent n' = sent n)
    \<or> (\<exists>w' e v n'. bufw_Write (w, n) s = (None, w', n) \<and> Flush (w', n) = (Some e, v, n') \<and> sent n' = sent n)"
proof -
  have cw: "\<exists>e n'. writeDeadlineConn_Write k x n = (Some e, n') \<and> sent n' = sent n" if "x \<noteq> []" for k x
    using assms(1) that by (auto simp: writeDeadlineConn_Write_def conn_Write_def conn_Send_def Let_def split: list.split)
  show ?thesis
    using assms cw [of "wbuf w @ s" "wtimeout w"] cw [of "take bufsize (wbuf w @ s)" "wtimeout w"]
    by (cases "length (wbuf w @ s) \<le> bufsize"; cases "werr w")
      (auto simp: bufw_Write_def write_all.simps [of w n "wbuf w @ s"] Flush_def)
qed

text \<open>After \<^verbatim>\<open>Close\<close> every command fails and nothing is sent any more.\<close>

lemma closed_client_sends_nothing:
  "\<exists>e c'. Cmd ctx line (client_Close c) = (Failed (NetErr e), c') \<and> sent (c_conn c') = sent (c_conn c)"
proof -
  let ?c = "set_write_deadline ctx (settle False (arm ctx (client_Close c)))"
  have "wbudget (limited ?c) = Some 0" "sent (limited ?c) = sent (c_conn c)"
    by (simp_all add: arm_def client_Close_def conn_Close_def limited_def set_write_deadline_def Let_def split: option.split)
  then have "\<exists>e c'. writeCmd ctx line (arm ctx (client_Close c)) = (Failed (NetErr e), c') \<and> sent (c_conn c') = sent (c_conn c)"
    using broken_write_fails [of "limited ?c" "line @ CRLF" "c_writer ?c"]
    unfolding writeCmd_def Let_def by auto
  then show ?thesis by (auto simp: Cmd_def guard_def exchange_def and_then_def)
qed

end
