(* ===== verification/SlowReader.thy ===== *)
theory SlowReader
  imports Lines
begin

text \<open>
  A client that reads slowly. Every network write of the server is held up for a while, but for less than
  \<open>WriteTimeout\<close>, so that it succeeds (\<open>patient\<close>). The relation \<open>paced\<close> counts how many writes a writer has
  made, 4096 bytes at most each, and how long they took. Both pass through the dot-stuffing writer, as its
  locales say, and so reach the response to RETR.
\<close>

section \<open>Writes that succeed late\<close>

definition patient :: "bufw \<times> Net \<Rightarrow> bool" where
  "patient wn =
     (let (w, n) = wn
      in werr w = None \<and> wbudget n = None \<and> wtimeout w > 0 \<and> list_all (\<lambda>dt. int dt \<le> wtimeout w) (wslow n))"

lemma patient_writes:
  assumes "patient (w, n)"
  shows "\<exists>n'. writeDeadlineConn_Write (wtimeout w) p n = (None, n') \<and> patient (w, n')
    \<and> wslow n' = drop 1 (wslow n)"
  using assms
  by (cases "wslow n") (simp_all add: patient_def writeDeadlineConn_Write_def conn_Write_def conn_Send_def)

lemma patient_wbuf [simp]: "patient (w\<lparr>wbuf := s\<rparr>, n) = patient (w, n)"
  by (simp add: patient_def)

lemma patient_write_all: "patient (w, n) \<Longrightarrow> \<exists>wn'. write_all w n s = (None, wn') \<and> patient wn'"
proof (induction w n s rule: write_all.induct)
  case (1 w n s)
  obtain n' where "writeDeadlineConn_Write (wtimeout w) (take bufsize s) n = (None, n')" "patient (w, n')"
    using patient_writes [OF "1.prems"] by blast
  with "1.IH" "1.prems" show ?case by (simp add: write_all.simps [of w n s])
qed

lemma patient_bufw_Write: "patient wn \<Longrightarrow> \<exists>wn'. bufw_Write wn s = (None, wn') \<and> patient wn'"
  using patient_write_all by (cases wn) (auto simp: bufw_Write_def patient_def)

lemma patient_Flush:
  assumes "patient wn"
  shows "\<exists>wn'. Flush wn = (None, wn') \<and> patient wn'"
proof -
  obtain w n where wn: "wn = (w, n)" by (cases wn)
  obtain n' where "writeDeadlineConn_Write (wtimeout w) (wbuf w) n = (None, n')" "patient (w, n')"
    using patient_writes assms wn by blast
  moreover have "werr w = None" using assms wn by (simp add: patient_def)
  ultimately show ?thesis using assms by (simp add: Flush_def wn)
qed

interpretation slow_sink: reliable_sink bufw_Write stream patient
  by unfold_locales (rule patient_bufw_Write)

section \<open>How many, and how long\<close>

text \<open>
  \<open>took k n n'\<close>: \<open>k\<close> writes lead from \<open>n\<close> to \<open>n'\<close>, and the clock has moved for as long as the peer held
  them up.
\<close>

definition took :: "nat \<Rightarrow> Net \<Rightarrow> Net \<Rightarrow> bool" where
  "took k n n' \<longleftrightarrow> wslow n' = drop k (wslow n) \<and> now n' + lag n' = now n + lag n
     \<and> length (sent n) \<le> length (sent n') \<and> length (sent n') \<le> length (sent n) + k * bufsize"

lemma took_refl: "took 0 n n"
  by (simp add: took_def)

lemma took_trans: "took j a b \<Longrightarrow> took k b c \<Longrightarrow> took (j + k) a c"
  by (auto simp: took_def add.commute add_mult_distrib)

lemma took_now:
  assumes "took k n n'" "j \<le> k"
  shows "now n + int (sum_list (take j (wslow n))) \<le> now n'"
proof -
  have "sum_list (take j (wslow n)) + sum_list (drop j (wslow n)) = sum_list (wslow n)"
    by (metis append_take_drop_id sum_list_append)
  moreover have "sum_list (drop k (wslow n)) \<le> sum_list (drop j (wslow n))"
    using assms(2) by (metis append_take_drop_id drop_drop le_add_diff_inverse2 le_add2 sum_list_append)
  moreover have "now n' + int (sum_list (drop k (wslow n))) = now n + int (sum_list (wslow n))"
    using assms(1) by (auto simp: took_def lag_def)
  ultimately show ?thesis by linarith
qed

definition paced :: "bufw \<times> Net \<Rightarrow> bufw \<times> Net \<Rightarrow> bool" where
  "paced wn wn' \<longleftrightarrow>
     (werr (fst wn') = None \<longrightarrow> werr (fst wn) = None)
     \<and> (werr (fst wn') = None \<and> length (wbuf (fst wn)) \<le> bufsize \<longrightarrow>
          length (wbuf (fst wn')) \<le> bufsize \<and> (\<exists>k. took k (snd wn) (snd wn')))"

lemma paced_refl: "paced wn wn"
  using took_refl by (auto simp: paced_def)

lemma paced_trans: "paced a b \<Longrightarrow> paced b c \<Longrightarrow> paced a c"
  unfolding paced_def by (metis took_trans)

lemma write_took:
  assumes "writeDeadlineConn_Write t p n = (None, n')" "length p \<le> bufsize"
  shows "took 1 n n'"
proof -
  have "wslow n' = drop 1 (wslow n)"
    using assms(1) by (cases "wslow n")
      (auto simp: writeDeadlineConn_Write_def conn_Write_def Let_def dest!: conn_Send_frame split: if_splits)
  then show ?thesis using writeDeadlineConn_None [OF assms(1)] assms(2) by (simp add: took_def)
qed

lemma write_all_took:
  "write_all w n s = (r, w', n') \<Longrightarrow> werr w = None \<Longrightarrow> werr w' = None \<Longrightarrow>
     length (wbuf w') \<le> bufsize \<and> (\<exists>k. took k n n')"
proof (induction w n s rule: write_all.induct)
  case (1 w n s)
  show ?case
  proof (cases "length s \<le> bufsize")
    case True
    with "1.prems"(1) took_refl show ?thesis by (auto simp: write_all.simps [of w n s])
  next
    case False
    obtain q m where cw: "writeDeadlineConn_Write (wtimeout w) (take bufsize s) n = (q, m)" by fastforce
    with False "1.prems" have q: "q = None" "write_all w m (drop bufsize s) = (r, w', n')"
      by (auto simp: write_all.simps [of w n s] split: option.splits)
    have "took 1 n m" using cw q(1) by (intro write_took [of "wtimeout w" "take bufsize s"]) simp_all
    with "1.IH" [OF False cw [symmetric] q(1) q(2) "1.prems"(2,3)] took_trans show ?thesis by blast
  qed
qed

lemma paced_bufw_Write: "paced wn (snd (bufw_Write wn s))"
proof -
  obtain w n r w' n' where e: "wn = (w, n)" "bufw_Write wn s = (r, w', n')" by (metis prod_cases3 surj_pair)
  show ?thesis
  proof (cases "werr w")
    case None
    with e write_all_took [of w n "wbuf w @ s" r w' n'] show ?thesis
      by (simp add: bufw_Write_def paced_def)
  next
    case (Some x)
    then show ?thesis using paced_refl [of wn] by (simp add: bufw_Write_def e(1))
  qed
qed

lemma paced_Flush: "paced wn (snd (Flush wn))"
proof -
  obtain w n where wn: "wn = (w, n)" by (cases wn)
  obtain q m where cw: "writeDeadlineConn_Write (wtimeout w) (wbuf w) n = (q, m)" by fastforce
  then show ?thesis
    using write_took [of "wtimeout w" "wbuf w" n m] paced_refl [of wn]
    by (cases "werr w"; cases q) (auto simp: Flush_def wn paced_def)
qed

interpretation slow_steady: steady_sink bufw_Write paced
  by unfold_locales (rule paced_refl, rule paced_trans, assumption+, rule paced_bufw_Write)

section \<open>The response to RETR\<close>

lemma wire_body_longer: "length s \<le> length (wire_body s)"
proof -
  have "length s \<le> length (crlf_norm prev s)" for prev by (induction s arbitrary: prev) (auto intro: le_SucI)
  also have "length (crlf_norm NUL s) \<le> length (delivered s)" by (simp add: delivered_def terminated_def)
  also have "length t \<le> length (stuff_from start t)" for t start by (induction t arbitrary: start) (auto intro: le_SucI)
  from this [of "delivered s" True] have "length (delivered s) \<le> length (wire_body s)"
    by (simp add: wire_body_def stuffed_body_def concat_stuff_lines)
  finally show ?thesis .
qed

text \<open>What a step does on the connection of a slow client: it succeeds, and it is paced.\<close>

definition slow_step :: "'s Conn \<Rightarrow> 's Conn \<Rightarrow> bool" where
  "slow_step c c' \<longleftrightarrow> (patient (writer c, netConn c) \<longrightarrow>
     patient (writer c', netConn c') \<and> paced (writer c, netConn c) (writer c', netConn c'))"

lemma slow_step_trans: "slow_step a b \<Longrightarrow> slow_step b c \<Longrightarrow> slow_step a c"
  by (auto simp: slow_step_def intro: paced_trans)

lemma slow_write_string: "slow_step c (write_string s c)"
  using patient_bufw_Write [of "(writer c, netConn c)" s] paced_bufw_Write [of "(writer c, netConn c)" s]
  by (auto simp: slow_step_def write_string_alt)

lemma slow_flush: "slow_step c (snd (flush c))"
  using patient_Flush [of "(writer c, netConn c)"] paced_Flush [of "(writer c, netConn c)"]
  by (auto simp: slow_step_def flush_alt)

lemma slow_ok: "slow_step c (ok msg c)"
  by (auto simp: ok_def intro!: slow_step_trans [OF _ slow_write_string] slow_write_string)

lemma slow_copy_body:
  assumes "patient (writer c, netConn c)" "body_ends b = BodyEOF"
  shows "slow_step c (copy_body b c)" "out (copy_body b c) = out c @ wire_body (concat (body_chunks b))"
proof -
  obtain d d' where d: "io_Copy bufw_Write (body_chunks b) (newDotStuffWriter (writer c, netConn c)) = (None, d)"
    "dsw_Close bufw_Write d = (None, d')" "patient (dsw_w d')"
    "stream (dsw_w d') = stream (writer c, netConn c) @ wire_body (concat (body_chunks b))"
    using slow_sink.copy_close_ok [OF assms(1), of "body_chunks b"] by metis
  have "paced (writer c, netConn c) (dsw_w d)" "paced (dsw_w d) (dsw_w d')"
    using slow_steady.io_Copy_rel [of "newDotStuffWriter (writer c, netConn c)" "body_chunks b"]
      slow_steady.dsw_Close_rel [of d] d(1,2)
    by (simp_all add: newDotStuffWriter_def)
  then have "paced (writer c, netConn c) (dsw_w d')" by (rule paced_trans)
  then show "slow_step c (copy_body b c)" "out (copy_body b c) = out c @ wire_body (concat (body_chunks b))"
    using d assms(2) by (simp_all add: slow_step_def copy_body_def out_def add_event_def)
qed

text \<open>
  C39: the session limit does not end a response that a slow client reads. If every network write of the
  answer to RETR is held up for less than WriteTimeout, the whole message is sent, and the command takes
  the sum of these times, one for every 4096 bytes, whatever AbsoluteSessionTimeout is: the limit is looked
  at only when the server waits for the next command.
\<close>

theorem slow_reader_outlasts_limit:
  assumes "patient (writer c, netConn c)" and "length (wbuf (writer c)) \<le> bufsize"
    and "parseMsgNum args = Inr msg" and "s_Retr (meths srv) msg (session c) = (Ret (Some b), s')"
    and "body_ends b = BodyEOF"
    and "chunks = length (concat (body_chunks b)) div bufsize"
  shows "now (netConn c) + int (sum_list (take (chunks - 1) (wslow (netConn c)))) \<le> now (netConn (handleRetr srv args c))
    \<and> suffix (wire_body (concat (body_chunks b))) (out (handleRetr srv args c))
    \<and> closePending (handleRetr srv args c) = closePending c"
proof -
  define c0 where "c0 = elapse srv (CRetr msg) c"
  have c0: "writer c0 = writer c" "wslow (netConn c0) = wslow (netConn c)" "now (netConn c) \<le> now (netConn c0)"
    "patient (writer c0, netConn c0)" "closePending c0 = closePending c"
    using assms(1) by (simp_all add: c0_def elapse_def patient_def Let_def)
  let ?c1 = "add_event (EvCall (CRetr msg) True) (c0\<lparr>session := s'\<rparr>)"
  define c2 where "c2 = snd (flush (ok (retr_status b) ?c1))"
  define wire where "wire = wire_body (concat (body_chunks b))"
  have h: "handleRetr srv args c = copy_body b c2"
    using assms(3,4) by (cases "body_octets b") (simp_all add: handleRetr_def invoke_def retr_status_def c2_def c0_def)
  have "slow_step ?c1 c2"
    unfolding c2_def by (rule slow_step_trans [OF slow_ok slow_flush])
  then have "slow_step c0 c2" by (simp add: slow_step_def add_event_def)
  then have p2: "patient (writer c2, netConn c2)" "paced (writer c0, netConn c0) (writer c2, netConn c2)"
    using c0(4) by (auto simp: slow_step_def)
  let ?c = "copy_body b c2"
  have p: "patient (writer ?c, netConn ?c)" "paced (writer c0, netConn c0) (writer ?c, netConn ?c)"
    and o: "out ?c = out c2 @ wire"
    using slow_copy_body [OF p2(1) assms(5)] p2 paced_trans by (auto simp: slow_step_def wire_def)
  have e: "werr (writer ?c) = None" "werr (writer c2) = None" using p(1) p2(1) by (simp_all add: patient_def)
  obtain k where k: "took k (netConn c0) (netConn ?c)" and wb: "length (wbuf (writer ?c)) \<le> bufsize"
    using p(2) e(1) assms(2) c0(1) by (auto simp: paced_def)
  obtain j where j: "took j (netConn c0) (netConn c2)"
    using p2(2) e(2) assms(2) c0(1) by (auto simp: paced_def)
  have "length (sent (netConn ?c)) + length (wbuf (writer ?c)) \<ge> length (sent (netConn c0)) + length wire"
    using arg_cong [OF o, of length] e j by (simp add: out_def stream_def took_def)
  then have "length wire \<le> (k + 1) * bufsize"
    using k wb by (simp add: took_def)
  then have "chunks - 1 \<le> k"
    using div_le_mono [of "length (concat (body_chunks b))" "(k + 1) * bufsize" bufsize] assms(6)
      wire_body_longer [of "concat (body_chunks b)"] by (simp add: wire_def)
  moreover have "closePending ?c = closePending c2"
    using slow_sink.copy_close_ok [OF p2(1), of "body_chunks b"] assms(5)
    by (auto simp: copy_body_def add_event_def)
  ultimately show ?thesis
    using took_now [OF k, of "chunks - 1"] o c0 by (simp add: h c2_def wire_def suffix_def)
qed

end
