(* ===== verification/Witnesses.thy ===== *)
theory Witnesses
  imports Examples Lifecycle Deadlines SlowReader
begin

text \<open>
  Each theorem of the development that has hypotheses, applied at a concrete input where they hold:
  a login with a deletion, a client that hangs up, the TLS upgrade, a listing that travels from the
  server to the client, a session that panics, a client that reads slowly.
\<close>

section \<open>Whole connections\<close>

theorem calls_follow_states_witness:
  "list_ex login_ok [EvOnCommand ''USER'' 0 None, EvCall (CLogin ''u'' ''p'') True, EvOnCommand ''PASS'' 0 None]"
  using calls_follow_states [of demo_srv "(demo_store, new_session)" False
      "peer [says ''USER u'', says ''PASS p'', says ''DELE 1'', says ''QUIT'']"
      "[EvOnCommand ''USER'' 0 None, EvCall (CLogin ''u'' ''p'') True, EvOnCommand ''PASS'' 0 None]" "CDele 1" True]
  by (simp add: deleting_run)

theorem quit_is_last_call_witness:
  "filter is_call [EvOnCommand ''QUIT'' 0 None, EvSessionClose, EvNetClose] = []"
  by (rule quit_is_last_call [of demo_srv "(demo_store, new_session)" False
        "peer [says ''USER u'', says ''PASS p'', says ''DELE 1'', says ''QUIT'']"
        "[EvOnCommand ''USER'' 0 None, EvCall (CLogin ''u'' ''p'') True, EvOnCommand ''PASS'' 0 None,
          EvCall (CDele 1) True, EvOnCommand ''DELE'' 0 None]" True])
    (simp add: deleting_run)

theorem failed_logins_bounded_witness:
  "int (length (filter failed_login (trace (serve demo_srv (newConn demo_srv (demo_store, new_session) False
     (peer [says ''USER u'', says ''PASS p'', says ''DELE 1'', says ''QUIT''])))))) \<le> 10"
  using failed_logins_bounded [of demo_srv "(demo_store, new_session)" False
     "peer [says ''USER u'', says ''PASS p'', says ''DELE 1'', says ''QUIT'']"]
  by simp

theorem closed_once_at_the_end_witness:
  "\<exists>es t. trace (serve demo_srv (newConn demo_srv (demo_store, new_session) False (peer [hangs_up]))) =
      es @ EvSessionClose # (if hijacked (serve demo_srv (newConn demo_srv (demo_store, new_session) False (peer [hangs_up])))
          \<or> close_panics demo_srv t then [] else [EvNetClose])
    \<and> session_run demo_srv es (demo_store, new_session) t \<and> EvSessionClose \<notin> set es \<and> EvNetClose \<notin> set es"
  by (rule closed_once_at_the_end [OF not_blocked_demo])


theorem absolute_timeout_bounds_session_witness:
  "now (netConn (serve (New (demo_options\<lparr>AbsoluteSessionTimeout := 7, WriteTimeout := 3\<rparr>) demo_uni busy_session None)
     (newConn (New (demo_options\<lparr>AbsoluteSessionTimeout := 7, WriteTimeout := 3\<rparr>) demo_uni busy_session None)
       (demo_store, new_session) False ((peer [says ''NOOP''])\<lparr>wbudget := Some 50, wbreak := (100, []), wslow := [2]\<rparr>)))) \<le> 15"
  using absolute_timeout_bounds_session [of "New (demo_options\<lparr>AbsoluteSessionTimeout := 7, WriteTimeout := 3\<rparr>) demo_uni busy_session None"
    "(demo_store, new_session)" False "(peer [says ''NOOP''])\<lparr>wbudget := Some 50, wbreak := (100, []), wslow := [2]\<rparr>"]
  by (simp add: New_def defaults_def demo_options_def Let_def peer_def lag_def)

theorem no_quit_no_deletion_witness:
  "fst (session (serve demo_srv (newConn demo_srv (demo_store, new_session) False
     (peer [says ''USER u'', says ''PASS p'', says ''DELE 1'', hangs_up])))) = demo_store"
  by (rule no_quit_no_deletion)
    (simp_all add: dropped_run)

section \<open>The maildrop\<close>


theorem mem_Quit_expunges_witness:
  "maildrop ''u'' (fst (snd (mem_Quit (late_store, demo_session {1})))) =
     filter (\<lambda>m. Ptr m \<notin> Ptr ` {demo_msg}) (maildrop ''u'' late_store)"
  using mem_Quit_expunges [OF late_quit]
  by (simp add: late_quit marked_def marked_from_Cons) (simp add: demo_session_def marked_from_Cons)


theorem new_mail_survives_quit_witness:
  "\<lparr>Ptr = 1, UID = ''id2'', Data = ''late''\<rparr>
     \<in> set (maildrop ''u'' (fst (snd (mem_Quit (late_store, demo_session {1})))))"
  using new_mail_survives_quit [OF _ _ demo_reach _ late_added late_quit]
  by (simp add: late_quit demo_store_users)


section \<open>The wire\<close>

theorem readLine_whole_lines_witness:
  "\<exists>c'. readLine demo_srv (at 0 [(1, NData ''NO''), (1, NData (''OP'' @ CRLF @ ''ST''))] [] (demo_store, new_session)
       stateAuthorization [] [] []) = (Some (Inr ''NOOP''), c') \<and> pending (reader c') (netConn c') [] ''ST''"
proof -
  let ?c = "at 0 [(1, NData ''NO''), (1, NData (''OP'' @ CRLF @ ''ST''))] [] (demo_store, new_session) stateAuthorization [] [] []"
  have "pending (reader ?c) (netConn ?c) [] (''NOOP'' @ CR # LF # ''ST'')"
    by (auto simp: pending_def prompt_def payload_def at_def newConn_def peer_def
        intro!: exI [of _ "[(1, NData ''NO''), (1, NData (''OP'' @ CRLF @ ''ST''))]"])
  then show ?thesis
    using readLine_whole_lines [of ?c "[]" "''NOOP'' @ [CR]" "''ST''" demo_srv] by (simp add: strip_cr_def)
qed

theorem status_response_is_one_line_witness:
  "\<exists>l. out (err_resp (''no'' @ CRLF @ ''+OK'') demo_conn) = out demo_conn @ l @ CRLF \<and> CR \<notin> set l \<and> LF \<notin> set l
     \<and> HasPrefix l ''-ERR''"
  using status_response_is_one_line [OF demo_conn_simps(1), of "''no'' @ CRLF @ ''+OK''"] by blast

theorem retr_response_witness:
  "out (handleRetr demo_srv [''1''] demo_conn) =
     ''+OK Message follows'' @ CRLF @ ''A: b'' @ CRLF @ CRLF @ ''..x'' @ CRLF @ ''.'' @ CRLF"
  using retr_response [of demo_conn "[''1'']" 1 demo_srv "bytes_body demo_data" "(demo_store, demo_session {})"]
  by (simp add: run demo_at mem_Retr_def bytes_body_def demo_msg_def demo_wire status_line_def retr_status_def)

theorem broken_body_fails_closed_witness:
  "closePending (copy_body \<lparr>body_chunks = [''x.''], body_ends = BodyErr ErrTimeout, body_octets = None\<rparr> demo_conn)"
  using broken_body_fails_closed [of "\<lparr>body_chunks = [''x.''], body_ends = BodyErr ErrTimeout, body_octets = None\<rparr>"
     ErrTimeout demo_conn] by simp

theorem body_round_trip_witness:
  "\<exists>b' c'. body_ReadAll 1 [] (newBody demo_ctx) (watched demo_ctx (demo_client (wire_body demo_data))) =
     (Done demo_data, b', c') \<and> b_done b' \<and> awaits demo_ctx c' [] [] \<and> guards c' = []"
  using body_round_trip [of demo_ctx "demo_client (wire_body demo_data)" "[]" demo_data "[]" 1]
  by (simp add: demo_awaits demo_lines demo_delivered)

theorem retr_end_to_end_witness:
  "\<exists>b c1 b' c2. client_Retr demo_ctx 1 (demo_client (out (handleRetr demo_srv [''1''] demo_conn))) = (Done b, c1)
     \<and> body_ReadAll 1 [] b c1 = (Done demo_data, b', c2) \<and> awaits demo_ctx c2 [] [] \<and> guards c2 = []"
  using retr_end_to_end [of demo_srv demo_conn "[''1'']" 1 demo_msg "out (handleRetr demo_srv [''1''] demo_conn)"
    demo_ctx "demo_client (out (handleRetr demo_srv [''1''] demo_conn))" "[]" "[]" 1]
  by (simp add: demo_at parse_1 demo_awaits demo_msg_def demo_lines demo_delivered)

theorem stat_end_to_end_witness:
  "\<exists>c'. client_Stat demo_ctx (demo_client (out (handleStat demo_srv demo_conn))) = (Done (1, 12), c')
     \<and> awaits demo_ctx c' [] []"
  using stat_end_to_end [of demo_conn demo_srv 1 12 "(demo_store, demo_session {})"
    "out (handleStat demo_srv demo_conn)" demo_ctx "demo_client (out (handleStat demo_srv demo_conn))" "[]" "[]"]
  by (simp add: demo_awaits demo_stat demo_stat_out in_int64_def)

theorem list_end_to_end_witness:
  "\<exists>c'. client_List id demo_ctx (demo_client (out (handleList demo_srv [] demo_conn))) =
     (Done [\<lparr>Info_Num = 1, Info_Size = 12\<rparr>], c') \<and> awaits demo_ctx c' [] []"
  using list_end_to_end [of demo_conn demo_srv "[\<lparr>Info_Num = 1, Info_Size = 12\<rparr>]" "(demo_store, demo_session {})"
    "out (handleList demo_srv [] demo_conn)" demo_ctx "demo_client (out (handleList demo_srv [] demo_conn))" "[]" "[]" id]
  by (simp add: demo_awaits demo_list demo_list_out in_int64_def)

theorem uidl_end_to_end_witness:
  "\<exists>c'. client_Uidl id demo_ctx (demo_client (out (handleUidl demo_srv [] demo_conn))) =
     (Done [\<lparr>Uidl_Num = 1, Uidl_UniqueID = ''id1''\<rparr>], c') \<and> awaits demo_ctx c' [] []"
  using uidl_end_to_end [of demo_conn demo_srv "[\<lparr>Uidl_Num = 1, Uidl_UniqueID = ''id1''\<rparr>]" "(demo_store, demo_session {})"
    "out (handleUidl demo_srv [] demo_conn)" demo_ctx "demo_client (out (handleUidl demo_srv [] demo_conn))" "[]" "[]" id]
  by (simp add: demo_awaits demo_uidl demo_uidl_out in_int64_def plain_id1)

section \<open>Single commands\<close>

theorem login_needs_tls_witness:
  "EvTLS True \<in> set [EvTLS True, EvOnCommand ''STLS'' 1 None, EvOnCommand ''USER'' 0 None]"
  using login_needs_tls [of tls_srv "(demo_store, new_session)" before_tls
      "[EvTLS True, EvOnCommand ''STLS'' 1 None, EvOnCommand ''USER'' 0 None]" "CLogin ''u'' ''p''" True]
  by (simp add: tls_run)

theorem stls_upgrade_witness:
  "closePending (handleSTLS tls_srv (greeted_conn\<lparr>reader := ''USER x''\<rparr>))
   \<and> \<not> isTLS (handleSTLS tls_srv (greeted_conn\<lparr>reader := ''USER x''\<rparr>))"
  using stls_upgrade [of "greeted_conn\<lparr>reader := ''USER x''\<rparr>" tls_srv] by simp

theorem auth_plain_end_to_end_witness:
  "\<exists>line r. sent (c_conn (snd (AuthPlain demo_ctx [] ''u'' ''p'' (demo_client [])))) = line @ CRLF
     \<and> trace (snd (dispatched demo_srv line greeted_conn)) = [EvCall (CAuthenticatePlain [] ''u'' ''p'') r]"
proof -
  have "unfired (watched demo_ctx (demo_client []))" using demo_awaits [of "[]"] by (simp add: awaits_def expects_def)
  moreover have "wbuf (c_writer (demo_client [])) = []" "sent (c_conn (demo_client [])) = []"
    by (simp_all add: demo_client_def newClient_def NewWriter_def peer_def)
  ultimately show ?thesis
    using auth_plain_end_to_end [of greeted_conn demo_srv
       "\<lparr>AuthenticateMechanisms = mem_AuthenticateMechanisms, AuthenticatePlain = mem_AuthenticatePlain\<rparr>" "[]" "''u''" "''p''"
       demo_ctx "demo_client []"]
    by (simp add: authAllowed_def mem_session_def mem_AuthenticateMechanisms_def byte_def)
qed

theorem hijack_hands_over_witness:
  "\<exists>c'. process_line proxy_srv (''PASS '' @ ''p'') (greeted_conn\<lparr>username := ''u'', reader := ''STAT''\<rparr>) = (False, c')
     \<and> hijacked c' \<and> reader c' = ''STAT''"
  using hijack_hands_over [of "greeted_conn\<lparr>username := ''u'', reader := ''STAT''\<rparr>" proxy_srv "''p''"
      "\<lambda>h. (Ret (), (demo_store, new_session))"]
  by (auto simp: proxy_srv_def New_def defaults_def demo_options_def Let_def authAllowed_def)

theorem silent_client_times_out_witness:
  "\<exists>c'. serve_step demo_srv greeted_conn = (False, c') \<and> trace c' = [EvOnTimeout TimeoutIdle]
     \<and> sent (netConn c') = ''-ERR Idle timeout, connection timed out'' @ CRLF"
  using silent_client_times_out [of greeted_conn demo_srv "600 * second"]
  by (auto simp: greeted_deadline status_line_def sanitizeResponse_def)

theorem capa_response_witness:
  "out (handleCapa demo_srv demo_conn) = ''+OK Capability list follows'' @ CRLF @ ''TOP'' @ CRLF @ ''UIDL'' @ CRLF
     @ ''USER'' @ CRLF @ ''RESP-CODES'' @ CRLF @ ''PIPELINING'' @ CRLF @ ''SASL PLAIN'' @ CRLF @ ''.'' @ CRLF"
  using capa_response [of demo_conn demo_srv]
  by (simp add: capabilities_def cap_def cap_line_def capSuppressed_def run mem_AuthenticateMechanisms_def)

theorem session_errors_not_counted_witness:
  "errorCount (handleDele demo_srv [''1''] demo_conn) = 0 \<and> state (handleDele demo_srv [''1''] demo_conn) = stateTransaction"
  using session_errors_not_counted [OF parse_1, of "[]" 0 demo_srv demo_conn]
  by (simp add: parseOptionalMsgNum_def)

theorem rejected_connection_witness:
  "e_trace (handleConn demo_srv (\<lambda>_. (Fail (ErrPlain ''db down''), False)) PlainConn (peer [])) = [EvNetClose]
   \<and> sent (e_net (handleConn demo_srv (\<lambda>_. (Fail (ErrPlain ''db down''), False)) PlainConn (peer []))) =
     ''-ERR Service not available'' @ CRLF"
  using rejected_connection [of "\<lambda>_. (Fail (ErrPlain ''db down''), False)" demo_srv PlainConn "peer []" "ErrPlain ''db down''" False]
  by (simp add: run status_line_def)

theorem unterminated_line_is_executed_witness:
  "fst (readLine demo_srv (arm_deadline demo_srv (greeted_conn\<lparr>reader := ''DELE 1''\<rparr>))) = Some (Inr ''DELE 1'')"
  by (rule unterminated_line_is_executed [of _ "''DELE 1''" demo_srv "600 * second"])
    (simp_all add: greeted_conn_def run)

theorem slow_reader_outlasts_limit_witness:
  "10 \<le> now (netConn (handleRetr long_srv [''1''] slow_conn)) \<and> AbsoluteSessionTimeout (opts long_srv) = 7"
proof -
  have "patient (writer slow_conn, netConn slow_conn)" "length (wbuf (writer slow_conn)) \<le> bufsize"
    "now (netConn slow_conn) = 0" "wslow (netConn slow_conn) = [5, 5, 5]"
    "s_Retr (meths long_srv) 1 (session slow_conn) = (Ret (Some long_body), session slow_conn)"
    by (simp_all add: patient_def slow_conn_def long_srv_def run)
  moreover have "3 = length (concat (body_chunks long_body)) div bufsize" "body_ends long_body = BodyEOF"
    by (simp_all add: long_body_def length_concat sum_list_replicate)
  ultimately show ?thesis
    using slow_reader_outlasts_limit [of slow_conn "[''1'']" 1 long_srv long_body "session slow_conn" 3] parse_1
    by (simp add: long_srv_def New_def defaults_def demo_options_def Let_def)
qed

theorem trailing_blank_of_password_lost_witness:
  "\<exists>r es. trace (snd (serve_step demo_srv (at 0 [says ''PASS p ''] [] (demo_store, new_session) stateAuthorization ''u'' [] []))) =
     EvCall (CLogin ''u'' ''p'') r # es"
  using trailing_blank_of_password_lost [OF PASS_blank_read, simplified]
  by (simp add: authAllowed_def run)

theorem panic_is_contained_witness:
  "count_list (e_trace (ServeConn panic_srv (\<lambda>_. (Ret (demo_store, new_session), False)) PlainConn (peer [says ''UTF8'']))) EvSessionClose = 1
   \<and> last (e_trace (ServeConn panic_srv (\<lambda>_. (Ret (demo_store, new_session), False)) PlainConn (peer [says ''UTF8'']))) = EvNetClose"
  using panic_is_contained [of "\<lambda>_. (Ret (demo_store, new_session), False)" panic_srv PlainConn "peer [says ''UTF8'']"
      "(demo_store, new_session)" False] panic_run
  by (simp add: handleConn_def ended_of_def)

theorem unknown_command_handler_witness:
  "\<exists>es. trace (snd (dispatchUnknown handler_srv ''XTLS'' [] greeted_conn)) = es @ [EvCall (CUnknownCommand ''XTLS'') True]
     \<and> overrides es
   \<and> errorCount (snd (dispatchUnknown handler_srv ''XTLS'' [] greeted_conn)) = 0"
  using unknown_command_handler [of handler_srv demo_handler "''XTLS''" "[]" greeted_conn True
      "snd (dispatchUnknown handler_srv ''XTLS'' [] greeted_conn)" "Ret (True, True)"] handler_runs
  by (simp add: handler_srv_def New_def defaults_def demo_options_def Let_def)

section \<open>Contexts\<close>



text \<open>Cancelled at 3, called at 4, answered at 5.\<close>

theorem cancelled_call_goes_on_witness:
  "\<exists>c'. Cmd \<lparr>ctx_Deadline = Some 9, ctx_Cancel = Some 3\<rparr> ''NOOP''
     ((demo_client (''+OK'' @ CRLF))\<lparr>c_conn := (peer [(1, NData (''+OK'' @ CRLF))])\<lparr>now := 4\<rparr>\<rparr>) = (Done ''+OK'', c')"
proof -
  let ?c = "(demo_client (''+OK'' @ CRLF))\<lparr>c_conn := (peer [(1, NData (''+OK'' @ CRLF))])\<lparr>now := 4\<rparr>\<rparr>"
  have "pending (c_reader ?c) ((c_conn ?c)\<lparr>rdeadline := Some 9\<rparr>) [] (''+OK'' @ CRLF @ [])"
    by (auto simp: pending_def prompt_def payload_def demo_client_def newClient_def peer_def
        intro!: exI [of _ "[(1, NData (''+OK'' @ CRLF))]"])
  then show ?thesis
    using cancelled_call_goes_on [of "\<lparr>ctx_Deadline = Some 9, ctx_Cancel = Some 3\<rparr>" 9 3 ?c "[]" "''+OK''" "[]" "''NOOP''"]
    by (simp add: demo_client_def newClient_def NewWriter_def peer_def)
qed

theorem deadline_outlives_call_witness:
  "\<exists>c1 c2. Cmd demo_ctx ''NOOP'' (demo_client (''+OK'' @ CRLF)) = (Done ''+OK'', c1)
     \<and> Cmd \<lparr>ctx_Deadline = None, ctx_Cancel = None\<rparr> ''NOOP'' (c1\<lparr>c_conn := (c_conn c1)\<lparr>now := 20\<rparr>\<rparr>) =
         (Failed (NetErr ErrTimeout), c2)"
proof -
  let ?c = "demo_client (''+OK'' @ CRLF)"
  have pl: "plain ?c" "now (c_conn ?c) = 0"
    by (simp_all add: plain_def demo_client_def newClient_def NewWriter_def peer_def)
  obtain c1 where c1: "Cmd demo_ctx ''NOOP'' ?c = (Done ''+OK'', c1)"
    using Cmd_awaits [of demo_ctx ?c "[]" "''+OK''" "[]" "''NOOP''"] demo_awaits by auto
  have d: "ctx_Deadline demo_ctx = Some 5" by (simp add: demo_ctx_def)
  then have "has_deadline demo_ctx ?c" using pl by (simp add: has_deadline_def)
  from in_timeD(2) [OF deadline.Cmd this c1] have "now (c_conn c1) \<le> 20" using pl d by simp
  with deadline_outlives_call [OF c1 d pl(1), of 20 "''NOOP''"] c1 show ?thesis by auto
qed

section \<open>Shutting down\<close>


end
