(* ===== verification/Spec2Isabelle.thy ===== *)
theory Spec2Isabelle
  imports Witnesses
begin

text \<open>
  A verification of the Go POP3 library \<^verbatim>\<open>go-pop3\<close>: the server (\<^verbatim>\<open>src/pop3server\<close>),
  the in-memory maildrop behind it (\<^verbatim>\<open>src/pop3mem\<close>) and the client (\<^verbatim>\<open>src/pop3client\<close>).

  \<^bold>\<open>The program.\<close> A \<^verbatim>\<open>Server\<close> accepts connections and gives each a handler. The handler asks the
  embedding program for a \<^verbatim>\<open>Session\<close> and runs the command loop of a \<^verbatim>\<open>Conn\<close>: read a line under a
  deadline, dispatch it by state (AUTHORIZATION or TRANSACTION), call at most one method of the session,
  write the response, check whether the connection is to end. Message bodies go out through a
  dot-stuffing writer. STLS replaces the connection by a TLS one; a login method or the
  embedding program's handler for unknown commands may take the connection over (\<^verbatim>\<open>Hijack\<close>). The client dials a server, reads its greeting, and sends commands whose
  responses it parses. \<^verbatim>\<open>pop3mem\<close> is a session on a store shared by all connections.

  \<^bold>\<open>The model.\<close> Strings are lists of bytes (\<open>char\<close>). A method is a function from the state to its result and
  the new state; errors are values of \<open>err\<close> and every early return is a branch. A connection to the
  network is a \<open>Net\<close>: a clock, the two deadlines, and a peer given as a list of timed events followed by
  silence, which may hold up each write for a time, and may stop reading and stall the writes until they
  time out or the connection breaks. Timeouts follow from the clock. A context is the times of its deadline and its cancellation; the
  server's is cancelled at the time \<open>closes\<close>, a command's is done at the time \<open>cmdCtx\<close>, and what a session
  method makes of it is how long it takes (\<open>s_Takes\<close>; \<open>honours\<close> for one that returns when its context is done). The connection also carries the \<open>trace\<close> of the calls the library
  makes on the session, the hooks and the TLS layer, which is what the protocol theorems speak of.

  \<^descr> \<^bold>\<open>Prelude\<close>: bytes, control characters, 64-bit wrap-around.
  \<^descr> \<^bold>\<open>GoStrings\<close>: what the code uses of \<^verbatim>\<open>strings\<close>, \<^verbatim>\<open>strconv\<close> and \<^verbatim>\<open>fmt\<close> (white space of
    UTF-8 included), and \<^verbatim>\<open>splitCommand\<close>, \<^verbatim>\<open>sanitizeResponse\<close>, \<^verbatim>\<open>parseInt\<close>,
    \<^verbatim>\<open>containsCTL\<close>, \<^verbatim>\<open>splitNull\<close> of \<^verbatim>\<open>conn.go\<close>. Case mapping of non-ASCII strings
    is a parameter (\<open>unicode\<close>).
  \<^descr> \<^bold>\<open>GoErrors\<close>: \<^verbatim>\<open>errors.go\<close> with \<^verbatim>\<open>errors.As\<close> and \<^verbatim>\<open>errors.Is\<close>.
  \<^descr> \<^bold>\<open>Bufio\<close>: the network connection, the server's \<^verbatim>\<open>writeDeadlineConn\<close> on it, and Go's buffered
    reader and writer, 4096 bytes each.
  \<^descr> \<^bold>\<open>DotStuff\<close>: \<^verbatim>\<open>dotstuff.go\<close> over any \<^verbatim>\<open>io.Writer\<close> (locales \<open>byte_sink\<close>,
    \<open>reliable_sink\<close>, \<open>steady_sink\<close>, interpreted on the buffered writer) and the line-based reference
    \<open>wire_body\<close> it is proved equal to.
  \<^descr> \<^bold>\<open>Sasl\<close>: base64 and \<^verbatim>\<open>decodeSASLPlain\<close> (locale \<open>base64_codec\<close>).
  \<^descr> \<^bold>\<open>Session\<close>: \<^verbatim>\<open>pop3.go\<close>, \<^verbatim>\<open>session.go\<close>, \<^verbatim>\<open>body.go\<close>, \<^verbatim>\<open>options.go\<close>. A session is a
    record of functions on its own state; a method returns, fails or panics, after some time. A handler for
    unknown commands is a program over the methods of the connection (\<open>handler\<close>, run by \<open>run_handler\<close>).
  \<^descr> \<^bold>\<open>Conn, Handlers, Serve\<close>: \<^verbatim>\<open>conn.go\<close> and \<^verbatim>\<open>server.go\<close>, a definition per function;
    \<open>serve_step\<close> is one round of the loop of \<^verbatim>\<open>serve\<close>, \<open>handleConn\<close>, \<open>ServeConn\<close> and
    \<open>Serve\<close> what is around it.
  \<^descr> \<^bold>\<open>Lifecycle\<close>: the goroutines of \<^verbatim>\<open>Serve\<close>, \<^verbatim>\<open>Close\<close> and the handlers, statement by
    statement.
  \<^descr> \<^bold>\<open>MemStore\<close>: \<^verbatim>\<open>pop3mem/store.go\<close>; messages are compared by address, as the code does.
  \<^descr> \<^bold>\<open>Client\<close>: \<^verbatim>\<open>client.go\<close> and \<^verbatim>\<open>commands.go\<close>. The goroutines of
    \<^verbatim>\<open>guard\<close> that watch for a cancellation are the times at which they will fire (\<open>guards\<close>).

  \<^bold>\<open>What is shown.\<close>

  \<^item> ConnFrame, Protocol: what every handler leaves alone, and the contract \<open>handles\<close> that all of them and
    the dispatcher keep: which calls they make, in which state and with which arguments, how the error count moves, how long they
    take, and that the connection stays well-formed (\<open>formed\<close>).
  \<^item> Runs, Guarantees: the locale \<open>loop_invariant\<close> turns a property that one round keeps into one of the
    whole connection; its interpretations give the order of logins and transactions, TLS before credentials,
    the bound on failed logins, closing once and last, Quit as the last call, the absence of endless waits and
    the session time limit, stalled writes and session calls included; that every call is well-formed
    (\<open>wf_call\<close>); and a connection refines the abstract sequence of session calls
    (\<open>session_run\<close>).
  \<^item> MemStore: STAT, LIST, UIDL and RETR agree; QUIT removes exactly what is marked and nothing is removed
    without it (locale \<open>commit_on_quit\<close>); an invariant of the store under interleaved sessions and
    deliveries (\<open>mem_step\<close>); what TOP returns.
  \<^item> Lines, RoundTrip: lines are read whole however they are segmented; responses are what RFC 1939 wants byte
    for byte; what the server writes for RETR, STAT, LIST and UIDL the client reads back.
  \<^item> Deadlines: a client call ends when its context does. The locale \<open>time_limit\<close> builds the commands from
    writing and reading one line; it is interpreted for calls before the end of the context, under a
    deadline, and after a cancellation. Two ways in which the code handles contexts otherwise than it says
    follow, and what a closed client does.
  \<^item> SlowReader: the response to RETR of a client that reads slowly, which the session limit does not end;
    the dot-stuffing writer's locales, interpreted for slow connections.
  \<^item> Behaviour: STLS, credentials, hijacking, timeouts, CAPA, message numbers, errors, rejection, panics, handlers for
    unknown commands, the accept loop; and two places where the code does not do what its comments say.
  \<^item> Lifecycle: what is left running when \<^verbatim>\<open>Close\<close> has returned, and two runs in which that is more
    than its comment promises; what the contexts interrupt in a connection, calls on the
    session included.
  \<^item> Examples, Witnesses: concrete servers, peers and runs, and each theorem applied to one.

  \<^bold>\<open>Bounds and termination.\<close> No definition uses fuel. The loops that read (\<open>ReadSlice\<close>, \<open>readLine_loop\<close>,
  \<open>serve_loop\<close>, \<open>readMultiLine_loop\<close>, \<open>body_Close\<close>, \<open>body_ReadAll\<close>) are total because every round
  uses up bytes of the peer, which is finite. A read that would wait for ever is a result of its own
  (\<open>RBlock\<close>, \<open>blocked\<close>, \<open>Blocks\<close>), so that it is a theorem, not an assumption, that a server made by
  \<^verbatim>\<open>New\<close> does not get there.

  \<^bold>\<open>Not modelled.\<close>

  \<^item> A stalled write without a deadline waits until the connection breaks, which it does some time; that it
    waits for ever is not a result of the model.
  \<^item> The scheduler: a guard of the client acts at the moment its context is done, after everything else of
    that moment. That its goroutine runs later is left out.
  \<^item> Reading a message body and closing the session take no time; nor does an \<^verbatim>\<open>UnknownCommandHandler\<close>
    between its calls, all its time comes before the first of them.
  \<^item> \<^verbatim>\<open>NewSession\<close> may look at the connection and override its TLS flag, a login method may hijack it;
    that they write to it is left out, and so is a handler that uses the \<^verbatim>\<open>net.Conn\<close> beneath it.
  \<^item> The logger, the dialer and the sockets, the constant-time comparison of passwords.
\<close>

end
